theory Spec2Isabelle
  imports Complex_Main "HOL-Library.Char_ord" "HOL-Library.List_Lexorder"
begin

section \<open>Data model\<close>

text \<open>
  The program works on pandas Series and DataFrames of floats.  A float cell is modelled
  as a \<open>real option\<close>: \<open>Some x\<close> is the finite value \<open>x\<close>, computed exactly, and \<open>None\<close> is a
  missing cell, which pandas stores as NaN.  Rounding is modelled only where it decides which
  branch the program takes, in the section on standardisation in double precision.  A Series is the list
  of its (date, value) entries in index order; dates are day numbers.  The data model of the
  program keeps the dates of a series strictly increasing.
\<close>

type_synonym val = "real option"

type_synonym series = "(int \<times> val) list"

definition keys :: "series \<Rightarrow> int list" where
  "keys s = map fst s"

definition vals :: "series \<Rightarrow> val list" where
  "vals s = map snd s"

text \<open>Reading one label of a series; a label that the series does not have reads as missing,
  which is what reindexing gives.\<close>

definition lookup :: "series \<Rightarrow> int \<Rightarrow> val" where
  "lookup s d = (case map_of s d of None \<Rightarrow> None | Some v \<Rightarrow> v)"

text \<open>Arithmetic on cells: a missing operand gives a missing result.\<close>

definition vadd :: "val \<Rightarrow> val \<Rightarrow> val" where
  "vadd a b = (case (a, b) of (Some x, Some y) \<Rightarrow> Some (x + y) | _ \<Rightarrow> None)"

definition vsub :: "val \<Rightarrow> val \<Rightarrow> val" where
  "vsub a b = (case (a, b) of (Some x, Some y) \<Rightarrow> Some (x - y) | _ \<Rightarrow> None)"

definition vmul :: "val \<Rightarrow> val \<Rightarrow> val" where
  "vmul a b = (case (a, b) of (Some x, Some y) \<Rightarrow> Some (x * y) | _ \<Rightarrow> None)"

text \<open>Float division: \<open>0 / 0\<close> is NaN.  A non-zero value over zero is an infinity in the
  program; the model has no infinities and gives \<open>None\<close> there, and says so at each use.\<close>

definition vdiv :: "val \<Rightarrow> val \<Rightarrow> val" where
  "vdiv a b = (case (a, b) of
       (Some x, Some y) \<Rightarrow> if y = 0 then None else Some (x / y)
     | _ \<Rightarrow> None)"

text \<open>The defined cells of a column, as the skip-missing reductions of pandas see them.\<close>

definition defined :: "val list \<Rightarrow> real list" where
  "defined vs = concat (map (\<lambda>v. case v of None \<Rightarrow> [] | Some x \<Rightarrow> [x]) vs)"

text \<open>\<open>Series.mean()\<close>: the mean of the defined cells, missing when there is none.\<close>

definition mean :: "val list \<Rightarrow> val" where
  "mean vs = (let xs = defined vs in
     if xs = [] then None else Some (sum_list xs / real (length xs)))"

text \<open>\<open>Series.std(ddof=0)\<close>: the population standard deviation of the defined cells.\<close>

definition std0 :: "val list \<Rightarrow> val" where
  "std0 vs = (let xs = defined vs in
     if xs = [] then None
     else (let m = sum_list xs / real (length xs) in
       Some (sqrt (sum_list (map (\<lambda>x. (x - m)\<^sup>2) xs) / real (length xs)))))"

section \<open>Standardisation\<close>

text \<open>\<open>_zscore(series, name)\<close> of the combiner.  The argument may be \<open>None\<close>; the result is the
  series renamed to \<open>name\<close>.\<close>

definition zscore :: "series option \<Rightarrow> string \<Rightarrow> string \<times> series" where
  "zscore series name =
     (case series of
        None \<Rightarrow> (name, [])
      | Some s \<Rightarrow>
          if s = [] then (name, [])
          else (let m = mean (vals s); sd = std0 (vals s) in
            if sd = Some 0 \<or> sd = None then (name, map (\<lambda>(d, v). (d, Some 0)) s)
            else (name, map (\<lambda>(d, v). (d, vdiv (vsub v m) sd)) s)))"

text \<open>\<open>_zscore(series)\<close> of the price feature extractor: no test for an empty series.\<close>

definition price_zscore :: "series \<Rightarrow> series" where
  "price_zscore s =
     (let m = mean (vals s); sd = std0 (vals s) in
       if sd = Some 0 \<or> sd = None then map (\<lambda>(d, v). (d, Some 0)) s
       else map (\<lambda>(d, v). (d, vdiv (vsub v m) sd)) s)"

section \<open>Tables\<close>

text \<open>The errors that the modelled functions raise.  \<open>KeyError\<close> is what pandas raises on
  reading a column that a table does not have; \<open>MissingColumns\<close> is the \<open>ValueError\<close> whose
  message lists a set of missing columns.\<close>

datatype error = KeyError string | ValueError string | MissingColumns "string set"

text \<open>A DataFrame of floats indexed by date: the column names, and the rows in index order, each
  with one cell per column.\<close>

record frame =
  columns :: "string list"
  rows :: "(int \<times> val list) list"

text \<open>\<open>pd.DataFrame()\<close>\<close>

definition empty_frame :: frame where
  "empty_frame = \<lparr>columns = [], rows = []\<rparr>"

text \<open>\<open>DataFrame.empty\<close>: some axis has length 0.\<close>

definition is_empty :: "'a frame_scheme \<Rightarrow> bool" where
  "is_empty f = (columns f = [] \<or> rows f = [])"

text \<open>\<open>DataFrame.index\<close>\<close>

definition index :: "'a frame_scheme \<Rightarrow> int list" where
  "index f = map fst (rows f)"

fun col_pos :: "string list \<Rightarrow> string \<Rightarrow> nat option" where
  "col_pos [] c = None"
| "col_pos (x # xs) c = (if x = c then Some 0 else map_option Suc (col_pos xs c))"

definition cell :: "val list \<Rightarrow> nat \<Rightarrow> val" where
  "cell vs i = (if i < length vs then vs ! i else None)"

text \<open>\<open>df[col]\<close>: the cells of one column, or \<open>KeyError\<close>.\<close>

definition column :: "'a frame_scheme \<Rightarrow> string \<Rightarrow> error + val list" where
  "column f c = (case col_pos (columns f) c of
       None \<Rightarrow> Inl (KeyError c)
     | Some i \<Rightarrow> Inr (map (\<lambda>(d, vs). cell vs i) (rows f)))"

text \<open>The index of \<open>pd.concat(..., axis=1, join="inner")\<close>: the dates of the first series that
  every other series has too, in the order of the first series.\<close>

fun inner_index :: "series list \<Rightarrow> int list" where
  "inner_index [] = []"
| "inner_index (s # ss) = filter (\<lambda>d. list_all (\<lambda>t. d \<in> set (keys t)) ss) (keys s)"

text \<open>\<open>pd.concat(series, axis=1, join="inner")\<close> of named series: one column per series, read at
  the common dates.\<close>

definition concat_inner :: "(string \<times> series) list \<Rightarrow> frame" where
  "concat_inner cs = (let idx = inner_index (map snd cs) in
     \<lparr>columns = map fst cs,
      rows = map (\<lambda>d. (d, map (\<lambda>(n, s). lookup s d) cs)) idx\<rparr>)"

text \<open>\<open>DataFrame.dropna(how="all")\<close>: drops the rows whose cells are all missing.\<close>

definition dropna_all :: "frame \<Rightarrow> frame" where
  "dropna_all f = f\<lparr>rows := filter (\<lambda>(d, vs). \<not> list_all (\<lambda>v. v = None) vs) (rows f)\<rparr>"

text \<open>\<open>DataFrame.assign(name=col)\<close> for a column over the frame's own index: a new column goes
  last, an existing one is overwritten.\<close>

definition assign :: "frame \<Rightarrow> string \<Rightarrow> val list \<Rightarrow> frame" where
  "assign f name col = (case col_pos (columns f) name of
       None \<Rightarrow> \<lparr>columns = columns f @ [name],
                rows = map2 (\<lambda>(d, vs) v. (d, vs @ [v])) (rows f) col\<rparr>
     | Some i \<Rightarrow> \<lparr>columns = columns f,
                  rows = map2 (\<lambda>(d, vs) v. (d, vs[i := v])) (rows f) col\<rparr>)"

text \<open>A Python dict with string keys, as the list of its items; \<open>dict.get(key, default)\<close>.\<close>

type_synonym weights = "(string \<times> real) list"

definition dict_get :: "weights \<Rightarrow> string \<Rightarrow> real \<Rightarrow> real" where
  "dict_get m k dflt = (case map_of m k of None \<Rightarrow> dflt | Some v \<Rightarrow> v)"

text \<open>\<open>sum(f[col] * w for col, w in items)\<close>, continued from the partial sum \<open>acc\<close>: columns
  are added cell by cell, and reading a column that the frame lacks raises.\<close>

fun weighted_sum :: "'a frame_scheme \<Rightarrow> weights \<Rightarrow> val list \<Rightarrow> error + val list" where
  "weighted_sum f [] acc = Inr acc"
| "weighted_sum f ((col, w) # rest) acc =
     (case column f col of
        Inl e \<Rightarrow> Inl e
      | Inr vs \<Rightarrow> weighted_sum f rest (map2 vadd acc (map (\<lambda>v. vmul v (Some w)) vs)))"

section \<open>The combiner\<close>

text \<open>The dict \<open>components\<close> that \<open>align_and_standardize\<close> fills: one standardised series,
  under its column name, for each argument that is not \<open>None\<close>.\<close>

definition components ::
  "series option \<Rightarrow> series option \<Rightarrow> series option \<Rightarrow> series option \<Rightarrow> series option
     \<Rightarrow> (string \<times> series) list"
where
  "components price_bias news_bias social_bias options_bias polymarket_bias =
     (if price_bias \<noteq> None then [zscore price_bias ''price_bias_z''] else []) @
     (if news_bias \<noteq> None then [zscore news_bias ''news_bias_z''] else []) @
     (if social_bias \<noteq> None then [zscore social_bias ''social_bias_z''] else []) @
     (if options_bias \<noteq> None then [zscore options_bias ''options_bias_z''] else []) @
     (if polymarket_bias \<noteq> None then [zscore polymarket_bias ''polymarket_bias_z''] else [])"

definition align_and_standardize ::
  "series option \<Rightarrow> series option \<Rightarrow> series option \<Rightarrow> series option \<Rightarrow> series option \<Rightarrow> frame"
where
  "align_and_standardize price_bias news_bias social_bias options_bias polymarket_bias =
     (let cs = components price_bias news_bias social_bias options_bias polymarket_bias
      in if cs = [] then empty_frame
         else dropna_all (concat_inner cs))"

definition default_weights :: weights where
  "default_weights =
     [(''price'', 0.4), (''news'', 0.2), (''social'', 0.15), (''options'', 0.10),
      (''polymarket'', 0.15)]"

text \<open>The loop that collects, for each column the frame has, the weight of its component.\<close>

definition available_weights :: "frame \<Rightarrow> weights \<Rightarrow> weights" where
  "available_weights features weight_map =
     map (\<lambda>(key, col). (col, dict_get weight_map key 0))
       (filter (\<lambda>(key, col). col \<in> set (columns features))
          [(''price'', ''price_bias_z''), (''news'', ''news_bias_z''),
           (''social'', ''social_bias_z''), (''options'', ''options_bias_z''),
           (''polymarket'', ''polymarket_bias_z'')])"

text \<open>\<open>weights or default_weights\<close>: the default for \<open>None\<close> and for an empty dict, both
  falsy in Python.\<close>

definition weights_or_default :: "weights option \<Rightarrow> weights" where
  "weights_or_default weights =
     (case weights of
        None \<Rightarrow> default_weights
      | Some w \<Rightarrow> if w = [] then default_weights else w)"

definition compute_prevailing_bias ::
  "series option \<Rightarrow> series option \<Rightarrow> series option \<Rightarrow> series option \<Rightarrow> series option
     \<Rightarrow> weights option \<Rightarrow> error + frame"
where
  "compute_prevailing_bias price_bias news_bias social_bias options_bias polymarket_bias weights =
     (let weight_map = weights_or_default weights;
          features = align_and_standardize price_bias news_bias social_bias options_bias
                       polymarket_bias
      in if is_empty features then Inr features
         else (let aw = available_weights features weight_map;
                   weight_sum = sum_list (map snd aw)
               in if weight_sum = 0 then Inr features
                  else (case weighted_sum features aw
                               (replicate (length (rows features)) (Some 0)) of
                          Inl e \<Rightarrow> Inl e
                        | Inr ws \<Rightarrow>
                            Inr (assign features ''prevailing_bias''
                                   (map (\<lambda>v. vdiv v (Some weight_sum)) ws)))))"

text \<open>The weights that take part in the composite: those of the columns of the aligned frame,
  in column order.\<close>

definition used_weights ::
  "series option \<Rightarrow> series option \<Rightarrow> series option \<Rightarrow> series option \<Rightarrow> series option
     \<Rightarrow> weights option \<Rightarrow> real list"
where
  "used_weights p n s o1 q w =
     map snd (available_weights (align_and_standardize p n s o1 q) (weights_or_default w))"

text \<open>The specification's reading of the composite: the weights rescaled to sum to 1, and the
  weighted sum of the cells of one row.\<close>

definition renormalized :: "real list \<Rightarrow> real list" where
  "renormalized ws = map (\<lambda>w. w / sum_list ws) ws"

definition weighted_cells :: "real list \<Rightarrow> val list \<Rightarrow> val" where
  "weighted_cells ws vs = foldl vadd (Some 0) (map2 (\<lambda>w v. vmul v (Some w)) ws vs)"

text \<open>The specification's components: the canonical names of the arguments that are supplied,
  in the order price, news, social, options, polymarket, and the series supplied for them.\<close>

definition present_components ::
  "series option \<Rightarrow> series option \<Rightarrow> series option \<Rightarrow> series option \<Rightarrow> series option
     \<Rightarrow> string list"
where
  "present_components p n s o1 q =
     (if p \<noteq> None then [''price''] else []) @
     (if n \<noteq> None then [''news''] else []) @
     (if s \<noteq> None then [''social''] else []) @
     (if o1 \<noteq> None then [''options''] else []) @
     (if q \<noteq> None then [''polymarket''] else [])"

definition present_inputs ::
  "series option \<Rightarrow> series option \<Rightarrow> series option \<Rightarrow> series option \<Rightarrow> series option
     \<Rightarrow> series list"
where
  "present_inputs p n s o1 q =
     (case p of None \<Rightarrow> [] | Some x \<Rightarrow> [x]) @
     (case n of None \<Rightarrow> [] | Some x \<Rightarrow> [x]) @
     (case s of None \<Rightarrow> [] | Some x \<Rightarrow> [x]) @
     (case o1 of None \<Rightarrow> [] | Some x \<Rightarrow> [x]) @
     (case q of None \<Rightarrow> [] | Some x \<Rightarrow> [x])"

text \<open>The specification's weight of a component: the default weights when no weight map, or an
  empty one, is given; otherwise the component's entry in the caller's map, and 0 when the map
  has no entry for it.\<close>

definition spec_default_weight :: "string \<Rightarrow> real" where
  "spec_default_weight k =
     (if k = ''price'' then 0.40 else if k = ''news'' then 0.20
      else if k = ''social'' then 0.15 else if k = ''options'' then 0.10
      else if k = ''polymarket'' then 0.15 else 0)"

definition component_weight :: "weights option \<Rightarrow> string \<Rightarrow> real" where
  "component_weight w k =
     (case w of
        None \<Rightarrow> spec_default_weight k
      | Some m \<Rightarrow>
          if m = [] then spec_default_weight k
          else (case map_of m k of None \<Rightarrow> 0 | Some x \<Rightarrow> x))"

text \<open>The column that holds the standardised series of a component.\<close>

definition z_column :: "string \<Rightarrow> string" where
  "z_column k = k @ ''_bias_z''"

section \<open>Sentiment aggregation\<close>

text \<open>The index of \<open>news.align(social, join="outer")\<close>: equal indexes are kept as they are,
  otherwise the sorted union of the dates.\<close>

definition outer_index :: "series \<Rightarrow> series \<Rightarrow> int list" where
  "outer_index a b = (if keys a = keys b then keys a else sort (remdups (keys a @ keys b)))"

definition reindex :: "series \<Rightarrow> int list \<Rightarrow> series" where
  "reindex s idx = map (\<lambda>d. (d, lookup s d)) idx"

text \<open>\<open>Series.fillna(value)\<close>; filling with a missing value changes nothing.\<close>

definition fillna :: "series \<Rightarrow> val \<Rightarrow> series" where
  "fillna s fill = map (\<lambda>(d, v). (d, case v of None \<Rightarrow> fill | Some x \<Rightarrow> Some x)) s"

definition combine_sentiment_scores :: "series \<Rightarrow> series \<Rightarrow> real \<Rightarrow> series" where
  "combine_sentiment_scores news social weight_news =
     (let idx = outer_index news social;
          news_aligned = reindex news idx;
          social_aligned = reindex social idx;
          news_filled = fillna news_aligned (mean (vals news_aligned));
          social_filled = fillna social_aligned (mean (vals social_aligned))
      in map2 (\<lambda>(d, a) (e, b). (d, vadd (vmul (Some weight_news) a)
                                        (vmul (Some (1 - weight_news)) b)))
           news_filled social_filled)"

text \<open>The call that leaves \<open>weight_news\<close> to its default.\<close>

definition combine_sentiment_scores_default :: "series \<Rightarrow> series \<Rightarrow> series" where
  "combine_sentiment_scores_default news social = combine_sentiment_scores news social 0.6"

text \<open>The specification's filled cell: the value of the series at a date, or, where it is
  missing, the mean of the defined values of that same series.\<close>

definition own_mean_fill :: "series \<Rightarrow> int \<Rightarrow> val" where
  "own_mean_fill s d = (case lookup s d of None \<Rightarrow> mean (vals s) | Some x \<Rightarrow> Some x)"

text \<open>The table of scored items: any columns, and cells that hold a date, a string, a float or
  nothing.\<close>

datatype item_cell = Date int | Str string | Num real | NA

record table =
  tcolumns :: "string list"
  trows :: "item_cell list list"

definition item_at :: "item_cell list \<Rightarrow> nat \<Rightarrow> item_cell" where
  "item_at r i = (if i < length r then r ! i else NA)"

text \<open>One row read through the three required columns: its date and channel, when the row has
  them, and its sentiment.\<close>

definition item_of :: "nat \<Rightarrow> nat \<Rightarrow> nat \<Rightarrow> item_cell list \<Rightarrow> int option \<times> string option \<times> val"
where
  "item_of di ci si r =
     ((case item_at r di of Date d \<Rightarrow> Some d | _ \<Rightarrow> None),
      (case item_at r ci of Str c \<Rightarrow> Some c | _ \<Rightarrow> None),
      (case item_at r si of Num x \<Rightarrow> Some x | _ \<Rightarrow> None))"

text \<open>\<open>groupby(["date", "channel"])["sentiment"].mean()\<close>: rows without a date or a channel
  belong to no group; the mean of a group skips missing sentiments.\<close>

definition group_mean :: "(int option \<times> string option \<times> val) list \<Rightarrow> int \<Rightarrow> string \<Rightarrow> val" where
  "group_mean items d c =
     mean (map (\<lambda>(a, b, v). v) (filter (\<lambda>(a, b, v). a = Some d \<and> b = Some c) items))"

definition group_keys :: "(int option \<times> string option \<times> val) list \<Rightarrow> (int \<times> string) list" where
  "group_keys items =
     concat (map (\<lambda>(a, b, v). case (a, b) of (Some d, Some c) \<Rightarrow> [(d, c)] | _ \<Rightarrow> []) items)"

text \<open>\<open>pivot(index="date", columns="channel", values="sentiment")\<close> of the group means: the dates
  and the channels that have a group, each sorted; a cell without a group is missing.\<close>

definition pivot :: "(int option \<times> string option \<times> val) list \<Rightarrow> frame" where
  "pivot items =
     (let ks = group_keys items;
          dates = sort (remdups (map fst ks));
          chans = sort (remdups (map snd ks))
      in \<lparr>columns = chans,
          rows = map (\<lambda>d. (d, map (\<lambda>c. if (d, c) \<in> set ks then group_mean items d c else None)
                                chans)) dates\<rparr>)"

definition aggregate_daily_sentiment :: "table \<Rightarrow> error + frame" where
  "aggregate_daily_sentiment df =
     (if tcolumns df = [] \<or> trows df = []
      then Inr \<lparr>columns = [''date'', ''channel'', ''sentiment''], rows = []\<rparr>
      else (let missing = {''date'', ''channel'', ''sentiment''} - set (tcolumns df)
            in if missing \<noteq> {} then Inl (MissingColumns missing)
               else (case (col_pos (tcolumns df) ''date'', col_pos (tcolumns df) ''channel'',
                           col_pos (tcolumns df) ''sentiment'') of
                       (Some di, Some ci, Some si) \<Rightarrow> Inr (pivot (map (item_of di ci si) (trows df)))
                     | _ \<Rightarrow> Inl (KeyError ''date''))))"

section \<open>Prediction markets\<close>

text \<open>\<open>df - c\<close>: a constant subtracted from every cell.\<close>

definition frame_sub :: "frame \<Rightarrow> real \<Rightarrow> frame" where
  "frame_sub f c = f\<lparr>rows := map (\<lambda>(d, vs). (d, map (\<lambda>v. vsub v (Some c)) vs)) (rows f)\<rparr>"

text \<open>\<open>compute_polymarket_bias\<close>.  \<open>series_dict\<close> is the dict of market series as the list of its
  items; the columns of the joined frame are renamed to its keys.\<close>

definition compute_polymarket_bias :: "(string \<times> series) list \<Rightarrow> weights option \<Rightarrow> error + series"
where
  "compute_polymarket_bias series_dict weights =
     (if series_dict = [] then Inr []
      else (let df = concat_inner series_dict
            in if is_empty df then Inr []
               else (let weights1 = (case weights of
                                       None \<Rightarrow> map (\<lambda>mid. (mid, 1)) (columns df)
                                     | Some w \<Rightarrow> w);
                         aligned_weights = map (\<lambda>col. (col, dict_get weights1 col 0)) (columns df);
                         weight_sum = sum_list (map snd aligned_weights)
                     in if weight_sum = 0 then Inr []
                        else (let centered = frame_sub df 0.5
                              in case weighted_sum centered aligned_weights
                                        (replicate (length (rows centered)) (Some 0)) of
                                   Inl e \<Rightarrow> Inl e
                                 | Inr ws \<Rightarrow> Inr (zip (index centered) ws)))))"

text \<open>The weights that \<open>compute_polymarket_bias\<close> gives the markets, in the order of the dict.\<close>

definition market_weights :: "(string \<times> series) list \<Rightarrow> weights option \<Rightarrow> real list" where
  "market_weights series_dict weights =
     map (\<lambda>mid. dict_get (case weights of
                             None \<Rightarrow> map (\<lambda>mid. (mid, 1)) (map fst series_dict)
                           | Some w \<Rightarrow> w) mid 0)
       (map fst series_dict)"

section \<open>Divergence\<close>

text \<open>\<open>(df - df.mean()) / df.std(ddof=0)\<close>: every column standardised by its own mean and
  population standard deviation.  A column of standard deviation 0 has all its defined cells
  equal to the mean, so each of its quotients is \<open>0 / 0\<close>, a missing cell.\<close>

definition frame_zscore :: "frame \<Rightarrow> frame" where
  "frame_zscore f =
     (let cols = map (\<lambda>i. map (\<lambda>(d, vs). cell vs i) (rows f)) [0..<length (columns f)];
          ms = map mean cols;
          sds = map std0 cols
      in f\<lparr>rows := map (\<lambda>(d, vs). (d, map (\<lambda>(v, m, sd). vdiv (vsub v m) sd) (zip vs (zip ms sds))))
                     (rows f)\<rparr>)"

text \<open>\<open>xs[a:b]\<close> for bounds that are not negative.\<close>

definition slice :: "'a list \<Rightarrow> int \<Rightarrow> int \<Rightarrow> 'a list" where
  "slice xs a b = take (nat (b - a)) (drop (nat a) xs)"

text \<open>\<open>Series.rolling(window, min_periods).mean()\<close>: at each position the mean of the defined
  cells among the last \<open>window\<close> ones, missing when fewer than \<open>min_periods\<close> are defined.\<close>

definition rolling_mean :: "val list \<Rightarrow> int \<Rightarrow> int \<Rightarrow> val list" where
  "rolling_mean vs window min_periods =
     map (\<lambda>i. let win = defined (slice vs (max 0 (int i + 1 - window)) (int i + 1))
              in if min_periods \<le> int (length win) then mean (map Some win) else None)
       [0..<length vs]"

definition compute_polymarket_divergence :: "series \<Rightarrow> series \<Rightarrow> int \<Rightarrow> error + series" where
  "compute_polymarket_divergence prevailing_bias polymarket_bias window =
     (if prevailing_bias = [] \<or> polymarket_bias = [] then Inr []
      else (let aligned = concat_inner [(''prevailing'', prevailing_bias),
                                        (''polymarket'', polymarket_bias)]
            in if is_empty aligned then Inr []
               else (let z = frame_zscore aligned
                     in case column z ''prevailing'' of
                          Inl e \<Rightarrow> Inl e
                        | Inr a \<Rightarrow>
                            (case column z ''polymarket'' of
                               Inl e \<Rightarrow> Inl e
                             | Inr b \<Rightarrow>
                                 (let divergence = map2 vsub a b
                                  in Inr (zip (index z)
                                       (if 1 < window
                                        then rolling_mean divergence window (max 1 (window div 2))
                                        else divergence)))))))"

section \<open>Price features\<close>

text \<open>The price table: a frame that also records whether its index is a \<open>DatetimeIndex\<close>.\<close>

record ohlcv = frame +
  datetime_index :: bool

definition validate_close :: "ohlcv \<Rightarrow> error + val list" where
  "validate_close df =
     (if ''Close'' \<notin> set (columns df) then Inl (ValueError ''DataFrame must contain 'Close' column'')
      else if \<not> datetime_index df then Inl (ValueError ''DataFrame index must be DatetimeIndex'')
      else column df ''Close'')"

text \<open>\<open>np.log\<close> on one cell.  The logarithm of 0 is \<open>-inf\<close> and that of a negative number is
  NaN; the model gives \<open>None\<close> for both, a non-finite cell.  In \<open>rolling_trend_slope\<close> either makes
  the slope of every window that holds it NaN.\<close>

definition np_log :: "val \<Rightarrow> val" where
  "np_log v = (case v of None \<Rightarrow> None | Some x \<Rightarrow> if 0 < x then Some (ln x) else None)"

text \<open>\<open>np.sum\<close> and \<open>ndarray.mean\<close>: a missing cell makes the sum missing; the mean of an empty
  array is NaN.\<close>

definition np_sum :: "val list \<Rightarrow> val" where
  "np_sum vs = foldl vadd (Some 0) vs"

definition np_mean :: "real list \<Rightarrow> val" where
  "np_mean xs = (if xs = [] then None else Some (sum_list xs / real (length xs)))"

text \<open>The body of the loop of \<open>rolling_trend_slope\<close> at position \<open>i\<close>.\<close>

definition slope_at :: "val list \<Rightarrow> int \<Rightarrow> nat \<Rightarrow> val" where
  "slope_at log_price window i =
     (if int i + 1 < window then None
      else (let y = slice log_price (int i + 1 - window) (int i + 1);
                x = map real [0..<nat window];
                x_mean = np_mean x;
                y_mean = mean y;
                dx = map (\<lambda>a. vsub (Some a) x_mean) x;
                denom = np_sum (map (\<lambda>a. vmul a a) dx);
                slope = (if denom \<noteq> Some 0
                         then vdiv (np_sum (map2 vmul dx (map (\<lambda>b. vsub b y_mean) y))) denom
                         else None)
            in vmul slope (Some (real_of_int window))))"

definition rolling_trend_slope :: "ohlcv \<Rightarrow> int \<Rightarrow> error + series" where
  "rolling_trend_slope df window =
     (case validate_close df of
        Inl e \<Rightarrow> Inl e
      | Inr close \<Rightarrow>
          (let log_price = map np_log close
           in Inr (zip (index df) (map (slope_at log_price window) [0..<length log_price]))))"

text \<open>The call that leaves \<open>window\<close> to its default.\<close>

definition rolling_trend_slope_default :: "ohlcv \<Rightarrow> error + series" where
  "rolling_trend_slope_default df = rolling_trend_slope df 60"

text \<open>The specification's ordinary-least-squares slope of a list of points: the textbook formula,
  undefined when the abscissas do not vary.\<close>

definition ols_slope :: "(real \<times> real) list \<Rightarrow> real option" where
  "ols_slope pts =
     (let n = real (length pts);
          sx = sum_list (map fst pts);
          sy = sum_list (map snd pts);
          sxy = sum_list (map (\<lambda>(x, y). x * y) pts);
          sxx = sum_list (map (\<lambda>(x, y). x * x) pts)
      in if n * sxx - sx * sx = 0 then None
         else Some ((n * sxy - sx * sy) / (n * sxx - sx * sx)))"

text \<open>The sum of squared residuals of the line \<open>y = a + b x\<close> on a list of points.\<close>

definition sse :: "real \<Rightarrow> real \<Rightarrow> (real \<times> real) list \<Rightarrow> real" where
  "sse a b pts = sum_list (map (\<lambda>(x, y). (y - (a + b * x))\<^sup>2) pts)"

section \<open>Standardisation in double precision\<close>

text \<open>
  Whether \<open>_zscore\<close> takes its zero-deviation branch is decided by a comparison of a computed
  double with 0, so this section repeats the two functions with every operation rounded as
  IEEE 754 binary64 arithmetic rounds it: to the nearest double, ties to the even significand.
  Doubles are the reals of the form \<open>m * 2 ^ e\<close> with \<open>\<bar>m\<bar> < 2 ^ 53\<close>; the exponent range is
  not limited, so overflow and gradual underflow are not modelled.
\<close>

text \<open>Rounding to the nearest integer, ties to even.\<close>

definition round_even :: "real \<Rightarrow> int" where
  "round_even x = (let f = \<lfloor>x\<rfloor>; r = x - of_int f
     in if r < 1 / 2 then f else if 1 / 2 < r then f + 1 else if even f then f else f + 1)"

text \<open>The binary exponent \<open>e\<close> of a positive real, \<open>2 ^ e \<le> x < 2 ^ (e + 1)\<close>, found in at most
  as many steps as the first argument allows.\<close>

fun binexp :: "nat \<Rightarrow> real \<Rightarrow> int" where
  "binexp 0 x = 0"
| "binexp (Suc k) x =
     (if 2 \<le> x then binexp k (x / 2) + 1 else if x < 1 then binexp k (x * 2) - 1 else 0)"

definition pow2 :: "int \<Rightarrow> real" where
  "pow2 e = (if 0 \<le> e then 2 ^ nat e else 1 / 2 ^ nat (- e))"

text \<open>The double nearest to a real: the significand is scaled to 53 bits and rounded.\<close>

definition rnd :: "real \<Rightarrow> real" where
  "rnd x = (if x = 0 then 0
     else (let e = binexp 1100 \<bar>x\<bar> - 52 in of_int (round_even (x / pow2 e)) * pow2 e))"

text \<open>The rounded operations.\<close>

definition fadd :: "real \<Rightarrow> real \<Rightarrow> real" where "fadd x y = rnd (x + y)"
definition fsub :: "real \<Rightarrow> real \<Rightarrow> real" where "fsub x y = rnd (x - y)"
definition fmul :: "real \<Rightarrow> real \<Rightarrow> real" where "fmul x y = rnd (x * y)"
definition fdiv :: "real \<Rightarrow> real \<Rightarrow> real" where "fdiv x y = rnd (x / y)"
definition fsqrt :: "real \<Rightarrow> real" where "fsqrt x = rnd (sqrt x)"

text \<open>\<open>values.sum()\<close>, added from left to right, which is the order numpy uses on arrays of
  fewer than eight elements.\<close>

definition float_sum :: "real list \<Rightarrow> real" where
  "float_sum xs = foldl fadd 0 xs"

text \<open>\<open>Series.mean()\<close> and \<open>Series.std(ddof=0)\<close> as pandas computes them on the defined cells:
  \<open>avg = sum / count\<close>, then \<open>sqrt(((avg - values) ** 2).sum() / count)\<close>.\<close>

definition float_mean :: "val list \<Rightarrow> val" where
  "float_mean vs = (let xs = defined vs in
     if xs = [] then None else Some (fdiv (float_sum xs) (real (length xs))))"

definition float_std0 :: "val list \<Rightarrow> val" where
  "float_std0 vs = (let xs = defined vs in
     if xs = [] then None
     else (let avg = fdiv (float_sum xs) (real (length xs));
               sqr = map (\<lambda>x. fmul (fsub avg x) (fsub avg x)) xs
           in Some (fsqrt (fdiv (float_sum sqr) (real (length xs))))))"

text \<open>\<open>(x - mean) / std\<close> on one cell.\<close>

definition float_standardize :: "val \<Rightarrow> val \<Rightarrow> val \<Rightarrow> val" where
  "float_standardize v m sd = (case (v, m, sd) of
       (Some x, Some a, Some b) \<Rightarrow> Some (fdiv (fsub x a) b)
     | _ \<Rightarrow> None)"

text \<open>\<open>_zscore(series, name)\<close> of the combiner and \<open>_zscore(series)\<close> of the price feature
  extractor, in double precision.\<close>

definition float_zscore :: "series option \<Rightarrow> string \<Rightarrow> string \<times> series" where
  "float_zscore series name =
     (case series of
        None \<Rightarrow> (name, [])
      | Some s \<Rightarrow>
          if s = [] then (name, [])
          else (let m = float_mean (vals s); sd = float_std0 (vals s) in
            if sd = Some 0 \<or> sd = None then (name, map (\<lambda>(d, v). (d, Some 0)) s)
            else (name, map (\<lambda>(d, v). (d, float_standardize v m sd)) s)))"

definition float_price_zscore :: "series \<Rightarrow> series" where
  "float_price_zscore s =
     (let m = float_mean (vals s); sd = float_std0 (vals s) in
       if sd = Some 0 \<or> sd = None then map (\<lambda>(d, v). (d, Some 0)) s
       else map (\<lambda>(d, v). (d, float_standardize v m sd)) s)"

section \<open>Cell arithmetic and tables\<close>

lemma zscore_fst: "fst (zscore s n) = n"
  by (auto simp: zscore_def Let_def split: option.splits)

lemma columns_concat_inner: "columns (concat_inner cs) = map fst cs"
  by (simp add: concat_inner_def Let_def)

lemma rows_concat_inner:
  "rows (concat_inner cs) = map (\<lambda>d. (d, map (\<lambda>(n, s). lookup s d) cs)) (inner_index (map snd cs))"
  by (simp add: concat_inner_def Let_def)

lemma columns_dropna_all: "columns (dropna_all f) = columns f"
  by (simp add: dropna_all_def)

lemma columns_align:
  "columns (align_and_standardize p n s o1 q) =
     (if p \<noteq> None then [''price_bias_z''] else []) @
     (if n \<noteq> None then [''news_bias_z''] else []) @
     (if s \<noteq> None then [''social_bias_z''] else []) @
     (if o1 \<noteq> None then [''options_bias_z''] else []) @
     (if q \<noteq> None then [''polymarket_bias_z''] else [])"
  by (simp add: align_and_standardize_def components_def Let_def empty_frame_def
        columns_dropna_all columns_concat_inner zscore_fst)

lemma available_weights_align:
  "map fst (available_weights (align_and_standardize p n s o1 q) wm)
     = columns (align_and_standardize p n s o1 q)"
  by (simp add: available_weights_def columns_align)

lemma col_pos_nth:
  "distinct cs \<Longrightarrow> i < length cs \<Longrightarrow> col_pos cs (cs ! i) = Some i"
proof (induction cs arbitrary: i)
  case Nil
  then show ?case by simp
next
  case (Cons c cs)
  show ?case
  proof (cases i)
    case 0
    then show ?thesis by simp
  next
    case (Suc j)
    with Cons.prems have "cs ! j \<noteq> c" "j < length cs" "distinct cs"
      by auto
    with Cons.IH [of j] Suc show ?thesis by auto
  qed
qed

lemma col_pos_None: "col_pos cs c = None \<longleftrightarrow> c \<notin> set cs"
  by (induction cs) auto

lemma vadd_simps [simp]:
  "vadd None b = None" "vadd a None = None" "vadd (Some x) (Some y) = Some (x + y)"
  by (simp_all add: vadd_def split: option.splits)

lemma vmul_simps [simp]:
  "vmul None b = None" "vmul a None = None" "vmul (Some x) (Some y) = Some (x * y)"
  by (simp_all add: vmul_def split: option.splits)

lemma vsub_simps [simp]:
  "vsub None b = None" "vsub a None = None" "vsub (Some x) (Some y) = Some (x - y)"
  by (simp_all add: vsub_def split: option.splits)

lemma vdiv_simps [simp]:
  "vdiv None b = None" "vdiv a None = None"
  "vdiv (Some x) (Some y) = (if y = 0 then None else Some (x / y))"
  by (simp_all add: vdiv_def split: option.splits)

lemma foldl_vadd_None: "foldl vadd None xs = None"
  by (induction xs) simp_all

lemma foldl_vadd:
  "foldl vadd (Some a) xs =
     (if None \<in> set xs then None else Some (a + sum_list (map the xs)))"
proof (induction xs arbitrary: a)
  case Nil
  show ?case by simp
next
  case (Cons x xs)
  show ?case
  proof (cases x)
    case None
    then show ?thesis by (simp add: foldl_vadd_None)
  next
    case (Some y)
    then show ?thesis using Cons.IH [of "a + y"] by (auto simp: add.assoc)
  qed
qed

lemma map2_keep_left:
  "length xs = length ys \<Longrightarrow> map2 (\<lambda>a b. a) xs ys = xs"
  by (induction xs ys rule: list_induct2) auto

lemma map2_absorb_column:
  "length acc = length rs \<Longrightarrow>
     map2 (\<lambda>a (d, vs). foldl vadd a (F vs)) (map2 vadd acc (map (\<lambda>(d, vs). g vs) rs)) rs
   = map2 (\<lambda>a (d, vs). foldl vadd a (g vs # F vs)) acc rs"
  by (induction acc rs rule: list_induct2) auto

text \<open>The sum of weighted columns, read row by row.\<close>

lemma weighted_sum_rows:
  assumes "distinct (columns f)"
    and "\<forall>(i, w) \<in> set iw. i < length (columns f)"
    and "length acc = length (rows f)"
  shows "weighted_sum f (map (\<lambda>(i, w). (columns f ! i, w)) iw) acc
       = Inr (map2 (\<lambda>a (d, vs). foldl vadd a (map (\<lambda>(i, w). vmul (cell vs i) (Some w)) iw))
                acc (rows f))"
  using assms(2,3)
proof (induction iw arbitrary: acc)
  case Nil
  then show ?case by (simp add: map2_keep_left)
next
  case (Cons p iw)
  obtain i w where p: "p = (i, w)" by (cases p)
  with Cons.prems have i: "i < length (columns f)" by simp
  have col: "column f (columns f ! i) = Inr (map (\<lambda>(d, vs). cell vs i) (rows f))"
    using col_pos_nth [OF assms(1) i] by (simp add: column_def)
  let ?acc = "map2 vadd acc (map (\<lambda>v. vmul v (Some w)) (map (\<lambda>(d, vs). cell vs i) (rows f)))"
  have acc: "?acc = map2 vadd acc (map (\<lambda>(d, vs). vmul (cell vs i) (Some w)) (rows f))"
    by (simp add: case_prod_unfold comp_def)
  have len: "length ?acc = length (rows f)"
    using Cons.prems by simp
  have rest: "\<forall>(i, w) \<in> set iw. i < length (columns f)"
    using Cons.prems by simp
  have "weighted_sum f (map (\<lambda>(i, w). (columns f ! i, w)) (p # iw)) acc
      = weighted_sum f (map (\<lambda>(i, w). (columns f ! i, w)) iw) ?acc"
    using col by (simp add: p)
  also have "\<dots> = Inr (map2 (\<lambda>a (d, vs). foldl vadd a
                        (map (\<lambda>(i, w). vmul (cell vs i) (Some w)) iw)) ?acc (rows f))"
    by (rule Cons.IH [OF rest len])
  also have "\<dots> = Inr (map2 (\<lambda>a (d, vs). foldl vadd a
                        (map (\<lambda>(i, w). vmul (cell vs i) (Some w)) (p # iw))) acc (rows f))"
    unfolding acc using map2_absorb_column [OF Cons.prems(2),
        of "\<lambda>vs. map (\<lambda>(i, w). vmul (cell vs i) (Some w)) iw" "\<lambda>vs. vmul (cell vs i) (Some w)"]
    by (simp add: p)
  finally show ?case .
qed

lemma zip_by_position:
  "length ws = length cs \<Longrightarrow>
     zip cs ws = map (\<lambda>(i, w). (cs ! i, w)) (zip [0..<length cs] ws)"
  by (rule nth_equalityI) simp_all

lemma cells_by_position:
  "length vs = length ws \<Longrightarrow>
     map (\<lambda>(i, w). vmul (cell vs i) (Some w)) (zip [0..<length ws] ws)
   = map2 (\<lambda>w v. vmul v (Some w)) ws vs"
  by (rule nth_equalityI) (simp_all add: cell_def)

lemma vdiv_foldl_vadd:
  "W \<noteq> 0 \<Longrightarrow>
     vdiv (foldl vadd (Some a) (map2 (\<lambda>w v. vmul v (Some w)) ws vs)) (Some W)
   = foldl vadd (Some (a / W)) (map2 (\<lambda>w v. vmul v (Some (w / W))) ws vs)"
proof (induction ws arbitrary: vs a)
  case Nil
  then show ?case by simp
next
  case (Cons w ws)
  show ?case
  proof (cases vs)
    case Nil
    with Cons.prems show ?thesis by simp
  next
    case (Cons v vs')
    show ?thesis
    proof (cases v)
      case None
      then show ?thesis by (simp add: Cons foldl_vadd_None)
    next
      case (Some x)
      then show ?thesis
        using Cons.IH [OF Cons.prems, of "a + x * w" vs']
        by (simp add: Cons add_divide_distrib)
    qed
  qed
qed

lemma sum_list_renormalized: "sum_list ws \<noteq> 0 \<Longrightarrow> sum_list (renormalized ws) = 1"
proof -
  have "sum_list (map (\<lambda>w. w / c) ws) = sum_list ws / c" for c :: real
    by (induction ws) (simp_all add: add_divide_distrib)
  then show "sum_list ws \<noteq> 0 \<Longrightarrow> sum_list (renormalized ws) = 1"
    by (simp add: renormalized_def)
qed

lemma rows_concat_inner_length:
  "(d, vs) \<in> set (rows (concat_inner cs)) \<Longrightarrow> length vs = length cs"
  by (auto simp: concat_inner_def Let_def)

lemma rows_align_length:
  assumes "(d, vs) \<in> set (rows (align_and_standardize p n s o1 q))"
  shows "length vs = length (columns (align_and_standardize p n s o1 q))"
proof (cases "components p n s o1 q = []")
  case True
  with assms show ?thesis
    by (simp add: align_and_standardize_def empty_frame_def)
next
  case False
  with assms have "(d, vs) \<in> set (rows (concat_inner (components p n s o1 q)))"
    by (auto simp: align_and_standardize_def dropna_all_def Let_def)
  then have "length vs = length (components p n s o1 q)"
    by (rule rows_concat_inner_length)
  with False show ?thesis
    by (simp add: align_and_standardize_def columns_dropna_all columns_concat_inner Let_def)
qed

lemma distinct_columns_align: "distinct (columns (align_and_standardize p n s o1 q))"
  by (simp add: columns_align)

lemma no_prevailing_column:
  "''prevailing_bias'' \<notin> set (columns (align_and_standardize p n s o1 q))"
  by (simp add: columns_align)

lemma map2_replicate_rows:
  "map2 f rs (map g (map2 h (replicate (length rs) c) rs)) = map (\<lambda>r. f r (g (h c r))) rs"
  by (induction rs) simp_all

lemma weighted_sum_frame:
  assumes d: "distinct (columns f)"
    and rl: "\<forall>(d, vs) \<in> set (rows f). length vs = length (columns f)"
    and len: "length ws = length (columns f)"
  shows "weighted_sum f (zip (columns f) ws) (replicate (length (rows f)) (Some 0))
       = Inr (map (\<lambda>(d, vs). weighted_cells ws vs) (rows f))"
proof -
  have pos: "\<forall>(i, w) \<in> set (zip [0..<length (columns f)] ws). i < length (columns f)"
    by (auto dest: set_zip_leftD)
  have "weighted_sum f (zip (columns f) ws) (replicate (length (rows f)) (Some 0))
      = Inr (map2 (\<lambda>a (d, vs). foldl vadd a
                (map (\<lambda>(i, w). vmul (cell vs i) (Some w)) (zip [0..<length (columns f)] ws)))
              (replicate (length (rows f)) (Some 0)) (rows f))"
    unfolding zip_by_position [OF len]
    by (rule weighted_sum_rows [OF d pos]) simp
  also have "map2 (\<lambda>a (d, vs). foldl vadd a
                (map (\<lambda>(i, w). vmul (cell vs i) (Some w)) (zip [0..<length (columns f)] ws)))
              (replicate (length (rows f)) (Some 0)) (rows f)
      = map (\<lambda>(d, vs). foldl vadd (Some 0)
                (map (\<lambda>(i, w). vmul (cell vs i) (Some w)) (zip [0..<length (columns f)] ws)))
              (rows f)"
    by (induction "rows f") (simp_all add: map2_map_map zip_replicate1 case_prod_unfold)
  also have "\<dots> = map (\<lambda>(d, vs). weighted_cells ws vs) (rows f)"
  proof (rule map_cong [OF refl])
    fix r assume r: "r \<in> set (rows f)"
    obtain d vs where dv: "r = (d, vs)" by (cases r)
    with r rl len have "length vs = length ws" by auto
    then show "(case r of (d, vs) \<Rightarrow> foldl vadd (Some 0)
                (map (\<lambda>(i, w). vmul (cell vs i) (Some w)) (zip [0..<length (columns f)] ws)))
             = (case r of (d, vs) \<Rightarrow> weighted_cells ws vs)"
      using cells_by_position [of vs ws] len by (simp add: dv weighted_cells_def)
  qed
  finally show ?thesis .
qed

lemma weighted_sum_align:
  "weighted_sum (align_and_standardize p n s o1 q)
      (available_weights (align_and_standardize p n s o1 q) wm)
      (replicate (length (rows (align_and_standardize p n s o1 q))) (Some 0))
   = Inr (map (\<lambda>(d, vs). weighted_cells
                 (map snd (available_weights (align_and_standardize p n s o1 q) wm)) vs)
            (rows (align_and_standardize p n s o1 q)))"
proof -
  let ?F = "align_and_standardize p n s o1 q"
  let ?ws = "map snd (available_weights ?F wm)"
  have len: "length ?ws = length (columns ?F)"
    using available_weights_align [of p n s o1 q wm] by (metis length_map)
  have aw: "available_weights ?F wm = zip (columns ?F) ?ws"
    using available_weights_align [of p n s o1 q wm] by (metis zip_map_fst_snd)
  have rl: "\<forall>(d, vs) \<in> set (rows ?F). length vs = length (columns ?F)"
    using rows_align_length by blast
  show ?thesis
    using weighted_sum_frame [OF distinct_columns_align rl len] aw by simp
qed

lemmas eval_defs = align_and_standardize_def components_def zscore_def concat_inner_def
  dropna_all_def mean_def std0_def defined_def vals_def keys_def lookup_def Let_def
  empty_frame_def is_empty_def

lemma length_used_weights:
  "length (used_weights p n s o1 q w) = length (columns (align_and_standardize p n s o1 q))"
  unfolding used_weights_def
  using available_weights_align [of p n s o1 q "weights_or_default w"]
  by (metis length_map)

lemma assign_new_column:
  "name \<notin> set (columns f) \<Longrightarrow>
     assign f name (map g (rows f))
   = \<lparr>columns = columns f @ [name], rows = map (\<lambda>(d, vs). (d, vs @ [g (d, vs)])) (rows f)\<rparr>"
proof -
  have "map2 (\<lambda>(d, vs) v. (d, vs @ [v])) rs (map g rs) = map (\<lambda>(d, vs). (d, vs @ [g (d, vs)])) rs"
    for rs :: "(int \<times> val list) list"
    by (induction rs) auto
  then show "name \<notin> set (columns f) \<Longrightarrow> ?thesis"
    using col_pos_None [of "columns f" name] by (simp add: assign_def)
qed

lemma compute_prevailing_bias_closed_form:
  assumes "\<not> is_empty (align_and_standardize p n s o1 q)"
    and "sum_list (used_weights p n s o1 q w) \<noteq> 0"
  shows "compute_prevailing_bias p n s o1 q w
       = Inr \<lparr>columns = columns (align_and_standardize p n s o1 q) @ [''prevailing_bias''],
              rows = map (\<lambda>(d, vs). (d, vs @
                            [weighted_cells (renormalized (used_weights p n s o1 q w)) vs]))
                       (rows (align_and_standardize p n s o1 q))\<rparr>"
proof -
  let ?F = "align_and_standardize p n s o1 q"
  let ?ws = "used_weights p n s o1 q w"
  let ?W = "sum_list ?ws"
  have ws: "weighted_sum ?F (available_weights ?F (weights_or_default w))
              (replicate (length (rows ?F)) (Some 0))
          = Inr (map (\<lambda>(d, vs). weighted_cells ?ws vs) (rows ?F))"
    unfolding used_weights_def by (rule weighted_sum_align)
  have div: "vdiv (weighted_cells ?ws vs) (Some ?W) = weighted_cells (renormalized ?ws) vs"
    for vs
    using vdiv_foldl_vadd [OF assms(2), of 0 ?ws vs]
    by (simp add: weighted_cells_def renormalized_def zip_map1 case_prod_unfold comp_def)
  have "compute_prevailing_bias p n s o1 q w
      = Inr (assign ?F ''prevailing_bias''
               (map (\<lambda>v. vdiv v (Some ?W)) (map (\<lambda>(d, vs). weighted_cells ?ws vs) (rows ?F))))"
    using assms ws by (simp add: compute_prevailing_bias_def Let_def used_weights_def)
  also have "map (\<lambda>v. vdiv v (Some ?W)) (map (\<lambda>(d, vs). weighted_cells ?ws vs) (rows ?F))
           = map (\<lambda>(d, vs). weighted_cells (renormalized ?ws) vs) (rows ?F)"
    by (simp add: div case_prod_unfold)
  also have "assign ?F ''prevailing_bias'' \<dots>
           = \<lparr>columns = columns ?F @ [''prevailing_bias''],
              rows = map (\<lambda>(d, vs). (d, vs @ [weighted_cells (renormalized ?ws) vs])) (rows ?F)\<rparr>"
    using assign_new_column [OF no_prevailing_column,
        of p n s o1 q "\<lambda>(d, vs). weighted_cells (renormalized ?ws) vs"]
    by (simp add: case_prod_unfold)
  finally show ?thesis .
qed

lemma columns_align_spec:
  "columns (align_and_standardize p n s o1 q) = map z_column (present_components p n s o1 q)"
  by (simp add: columns_align present_components_def z_column_def)

lemma default_weights_spec:
  "k \<in> {''price'', ''news'', ''social'', ''options'', ''polymarket''} \<Longrightarrow>
     dict_get default_weights k 0 = spec_default_weight k"
  by (auto simp: dict_get_def default_weights_def spec_default_weight_def)

lemma dict_get_component_weight:
  "k \<in> {''price'', ''news'', ''social'', ''options'', ''polymarket''} \<Longrightarrow>
     dict_get (weights_or_default w) k 0 = component_weight w k"
  using default_weights_spec [of k]
  by (auto simp: weights_or_default_def component_weight_def dict_get_def split: option.splits)

lemma used_weights_spec:
  "used_weights p n s o1 q w = map (component_weight w) (present_components p n s o1 q)"
  by (simp add: used_weights_def available_weights_def columns_align present_components_def
        dict_get_component_weight)

text \<open>
  Claim C2.  When the aligned frame has rows and the weights of the supplied components do not
  sum to zero, \<open>compute_prevailing_bias\<close> appends the column \<open>prevailing_bias\<close>.  Its cell in
  each row is the weighted sum of the row's standardised cells, where the column of each
  supplied component carries that component's own weight (its entry in the caller's map, or
  its default) divided by the sum of the weights of the supplied components, so the weights
  used sum to 1.  With price and news alone and the default weights they are 0.4/0.6 and
  0.2/0.6.
\<close>

theorem prevailing_bias_renormalized:
  assumes "\<not> is_empty (align_and_standardize p n s o1 q)"
    and "sum_list (map (component_weight w) (present_components p n s o1 q)) \<noteq> 0"
  shows "compute_prevailing_bias p n s o1 q w
       = Inr \<lparr>columns = map z_column (present_components p n s o1 q) @ [''prevailing_bias''],
              rows = map (\<lambda>(d, vs). (d, vs @
                            [weighted_cells
                               (renormalized (map (component_weight w)
                                                (present_components p n s o1 q))) vs]))
                       (rows (align_and_standardize p n s o1 q))\<rparr>
       \<and> columns (align_and_standardize p n s o1 q)
           = map z_column (present_components p n s o1 q)
       \<and> sum_list (renormalized (map (component_weight w) (present_components p n s o1 q))) = 1
       \<and> present_components (Some ps) (Some ns) None None None = [''price'', ''news'']
       \<and> renormalized (map (component_weight None) [''price'', ''news'']) = [0.4 / 0.6, 0.2 / 0.6]"
proof -
  have a2: "sum_list (used_weights p n s o1 q w) \<noteq> 0"
    unfolding used_weights_spec by (rule assms(2))
  have inst: "renormalized (map (component_weight None) [''price'', ''news''])
            = [0.4 / 0.6, 0.2 / 0.6]"
    by (simp add: renormalized_def component_weight_def spec_default_weight_def)
  show ?thesis
    using compute_prevailing_bias_closed_form [OF assms(1) a2]
      sum_list_renormalized [OF assms(2)] inst
    unfolding used_weights_spec columns_align_spec
    by (simp add: present_components_def)
qed

theorem prevailing_bias_renormalized_witness:
  "compute_prevailing_bias (Some [(1, Some 1), (2, Some 3)]) (Some [(1, Some 4), (2, Some 2)])
      None None None (Some [(''news'', 1), (''price'', 3)])
   = Inr \<lparr>columns = [''price_bias_z'', ''news_bias_z'', ''prevailing_bias''],
          rows = [(1, [Some (- 1), Some 1, Some (- (1 / 2))]),
                  (2, [Some 1, Some (- 1), Some (1 / 2)])]\<rparr>"
proof -
  let ?p = "Some [(1, Some 1), (2, Some 3)] :: series option"
  let ?n = "Some [(1, Some 4), (2, Some 2)] :: series option"
  let ?w = "Some [(''news'', 1), (''price'', 3)] :: weights option"
  have F: "align_and_standardize ?p ?n None None None
         = \<lparr>columns = [''price_bias_z'', ''news_bias_z''],
            rows = [(1, [Some (- 1), Some 1]), (2, [Some 1, Some (- 1)])]\<rparr>"
    by (simp add: eval_defs)
  have ws: "map (component_weight ?w) (present_components ?p ?n None None None) = [3, 1]"
    by (simp add: component_weight_def present_components_def)
  have h1: "\<not> is_empty (align_and_standardize ?p ?n None None None)"
    unfolding F by (simp add: is_empty_def)
  have h2: "sum_list (map (component_weight ?w) (present_components ?p ?n None None None)) \<noteq> 0"
    unfolding ws by simp
  show ?thesis
    using prevailing_bias_renormalized [OF h1 h2]
    unfolding F ws
    by (simp add: weighted_cells_def renormalized_def present_components_def z_column_def)
qed

text \<open>
  Claim C3.  When the weights of the columns of the aligned frame sum to zero,
  \<open>compute_prevailing_bias\<close> returns the aligned frame itself, without error and without a
  \<open>prevailing_bias\<close> column.
\<close>

theorem zero_weight_sum_returns_features:
  assumes "sum_list (used_weights p n s o1 q w) = 0"
  shows "compute_prevailing_bias p n s o1 q w = Inr (align_and_standardize p n s o1 q)
       \<and> ''prevailing_bias'' \<notin> set (columns (align_and_standardize p n s o1 q))"
  using assms no_prevailing_column [of p n s o1 q]
  by (simp add: compute_prevailing_bias_def used_weights_def Let_def)

theorem zero_weight_sum_returns_features_witness:
  "compute_prevailing_bias (Some [(1, Some 1), (2, Some 3)]) None None None None
      (Some [(''news'', 1)])
   = Inr \<lparr>columns = [''price_bias_z''], rows = [(1, [Some (- 1)]), (2, [Some 1])]\<rparr>"
proof -
  let ?p = "Some [(1, Some 1), (2, Some 3)] :: series option"
  have h: "sum_list (used_weights ?p None None None None (Some [(''news'', 1)])) = 0"
    by (simp add: used_weights_def available_weights_def columns_align weights_or_default_def
          dict_get_def)
  have F: "align_and_standardize ?p None None None None
         = \<lparr>columns = [''price_bias_z''], rows = [(1, [Some (- 1)]), (2, [Some 1])]\<rparr>"
    by (simp add: eval_defs)
  show ?thesis
    using zero_weight_sum_returns_features [OF h] unfolding F by simp
qed

lemma default_weight_sum_positive:
  assumes "columns (align_and_standardize p n s o1 q) \<noteq> []"
  shows "0 < sum_list (used_weights p n s o1 q None)"
  using assms
  by (simp add: used_weights_def available_weights_def columns_align weights_or_default_def
        default_weights_def dict_get_def split: if_splits)

text \<open>
  Claim C10.  An empty weight map gives the same result as no weight map: the default weights
  are used, so a frame that has rows gets its \<open>prevailing_bias\<close> column.
\<close>

theorem empty_weight_map_is_default:
  "compute_prevailing_bias p n s o1 q (Some []) = compute_prevailing_bias p n s o1 q None
   \<and> (\<not> is_empty (align_and_standardize p n s o1 q) \<longrightarrow>
        (\<exists>f. compute_prevailing_bias p n s o1 q (Some []) = Inr f
           \<and> ''prevailing_bias'' \<in> set (columns f)))"
proof -
  have eq: "compute_prevailing_bias p n s o1 q (Some []) = compute_prevailing_bias p n s o1 q None"
    by (simp add: compute_prevailing_bias_def weights_or_default_def)
  have "\<exists>f. compute_prevailing_bias p n s o1 q None = Inr f
           \<and> ''prevailing_bias'' \<in> set (columns f)"
    if ne: "\<not> is_empty (align_and_standardize p n s o1 q)"
  proof -
    from ne have "columns (align_and_standardize p n s o1 q) \<noteq> []"
      by (simp add: is_empty_def)
    then have "sum_list (used_weights p n s o1 q None) \<noteq> 0"
      using default_weight_sum_positive [of p n s o1 q] by simp
    from compute_prevailing_bias_closed_form [OF ne this] show ?thesis
      by simp
  qed
  with eq show ?thesis by simp
qed

theorem empty_weight_map_is_default_witness:
  "compute_prevailing_bias (Some [(1, Some 1), (2, Some 3)]) None None None None (Some [])
   = compute_prevailing_bias (Some [(1, Some 1), (2, Some 3)]) None None None None None
   \<and> (\<exists>f. compute_prevailing_bias (Some [(1, Some 1), (2, Some 3)]) None None None None (Some [])
            = Inr f \<and> ''prevailing_bias'' \<in> set (columns f))"
proof -
  let ?p = "Some [(1, Some 1), (2, Some 3)] :: series option"
  have F: "align_and_standardize ?p None None None None
         = \<lparr>columns = [''price_bias_z''], rows = [(1, [Some (- 1)]), (2, [Some 1])]\<rparr>"
    by (simp add: eval_defs)
  have h: "\<not> is_empty (align_and_standardize ?p None None None None)"
    unfolding F by (simp add: is_empty_def)
  show ?thesis
    using empty_weight_map_is_default [of ?p None None None None] h by blast
qed

lemma index_concat_inner: "index (concat_inner cs) = inner_index (map snd cs)"
  by (simp add: index_def concat_inner_def Let_def comp_def)

text \<open>
  Claim C4, as stated, fails: a price series with a missing value on day 2 and a news series
  defined there give a frame whose row for day 2 has a missing price cell.
\<close>

theorem align_leaves_missing_cells_counterexample:
  "align_and_standardize
      (Some [(1, Some 1), (2, None), (3, Some 3)])
      (Some [(0, Some 1), (1, Some 3), (2, Some 1), (3, Some 3)]) None None None
   = \<lparr>columns = [''price_bias_z'', ''news_bias_z''],
      rows = [(1, [Some (- 1), Some 1]), (2, [None, Some (- 1)]), (3, [Some 1, Some 1])]\<rparr>"
  by (simp add: eval_defs)

lemma std0_Some_mean: "std0 vs = Some sd \<Longrightarrow> \<exists>m. mean vs = Some m"
  by (auto simp: std0_def mean_def Let_def split: if_splits)

lemma lookup_map_values:
  "lookup (map (\<lambda>(d, v). (d, g v)) x) d
     = (case map_of x d of None \<Rightarrow> None | Some v \<Rightarrow> g v)"
  by (induction x) (auto simp: lookup_def)

lemma keys_map_values: "keys (map (\<lambda>(d, v). (d, g v)) x) = keys x"
  by (induction x) (auto simp: keys_def)

lemma keys_zscore: "keys (snd (zscore (Some x) name)) = keys x"
  by (auto simp: zscore_def Let_def keys_map_values)

lemma map_of_key: "d \<in> set (keys x) \<Longrightarrow> \<exists>v. map_of x d = Some v \<and> v \<in> set (vals x)"
  by (induction x) (auto simp: keys_def vals_def)

text \<open>A standardised cell is missing only where the input cell is.\<close>

lemma zscore_missing_cell:
  assumes d: "d \<in> set (keys x)"
    and z: "lookup (snd (zscore (Some x) name)) d = None"
  shows "lookup x d = None"
proof -
  from d obtain v where v: "map_of x d = Some v" using map_of_key by blast
  from d have ne: "x \<noteq> []" by (auto simp: keys_def)
  show ?thesis
  proof (cases "std0 (vals x) = Some 0 \<or> std0 (vals x) = None")
    case True
    with ne have "snd (zscore (Some x) name) = map (\<lambda>(d, v). (d, Some 0)) x"
      by (auto simp: zscore_def Let_def)
    with z v show ?thesis by (simp add: lookup_map_values)
  next
    case False
    then obtain sd where sd: "std0 (vals x) = Some sd" "sd \<noteq> 0" by auto
    then obtain m where m: "mean (vals x) = Some m" using std0_Some_mean by blast
    from ne sd m have "snd (zscore (Some x) name) = map (\<lambda>(d, v). (d, vdiv (vsub v (Some m)) (Some sd))) x"
      by (simp add: zscore_def Let_def)
    with z v sd(2) have "vdiv (vsub v (Some m)) (Some sd) = None"
      by (simp add: lookup_map_values)
    with sd(2) have "v = None" by (cases v) simp_all
    with v show ?thesis by (simp add: lookup_def)
  qed
qed

lemma components_inputs:
  "list_all2 (\<lambda>c x. \<exists>name. c = zscore (Some x) name)
     (components p n s o1 q) (present_inputs p n s o1 q)"
  by (cases p; cases n; cases s; cases o1; cases q)
     (auto simp: components_def present_inputs_def)

lemma inner_index_keys:
  "d \<in> set (inner_index ss) \<Longrightarrow> t \<in> set ss \<Longrightarrow> d \<in> set (keys t)"
  by (cases ss) (auto simp: list_all_iff)

lemma rows_align_cells:
  assumes r: "(d, vs) \<in> set (rows (align_and_standardize p n s o1 q))"
  shows "d \<in> set (inner_index (map snd (components p n s o1 q)))"
    and "vs = map (\<lambda>(n, z). lookup z d) (components p n s o1 q)"
    and "\<exists>v \<in> set vs. v \<noteq> None"
proof -
  have conv: "(\<not> list_all (\<lambda>v. v = None) vs) = (\<exists>v \<in> set vs. v \<noteq> None)" for vs :: "val list"
    by (simp add: list_all_iff)
  from r have "(d, vs) \<in> set (filter (\<lambda>(d, vs). \<exists>v \<in> set vs. v \<noteq> None)
                           (rows (concat_inner (components p n s o1 q))))"
    by (simp add: align_and_standardize_def Let_def empty_frame_def dropna_all_def conv
          split: if_splits)
  then show "d \<in> set (inner_index (map snd (components p n s o1 q)))"
    and "vs = map (\<lambda>(n, z). lookup z d) (components p n s o1 q)"
    and "\<exists>v \<in> set vs. v \<noteq> None"
    by (auto simp: rows_concat_inner)
qed

lemma align_cell_missing:
  assumes r: "(d, vs) \<in> set (rows (align_and_standardize p n s o1 q))"
    and i: "i < length vs"
  shows "length vs = length (present_inputs p n s o1 q)"
    and "d \<in> set (keys (present_inputs p n s o1 q ! i))"
    and "vs ! i = None \<Longrightarrow> lookup (present_inputs p n s o1 q ! i) d = None"
proof -
  let ?cs = "components p n s o1 q" and ?xs = "present_inputs p n s o1 q"
  note rel = components_inputs [of p n s o1 q]
  have len: "length ?cs = length ?xs"
    using rel by (rule list_all2_lengthD)
  have vs: "vs = map (\<lambda>(n, z). lookup z d) ?cs"
    using r by (rule rows_align_cells(2))
  have lv: "length vs = length ?cs"
    by (subst vs) simp
  show "length vs = length ?xs"
    using lv len by simp
  from i lv have ic: "i < length ?cs" by simp
  have "\<exists>name. ?cs ! i = zscore (Some (?xs ! i)) name"
    using rel ic by (rule list_all2_nthD)
  then obtain name where c: "?cs ! i = zscore (Some (?xs ! i)) name" ..
  have mem: "snd (?cs ! i) \<in> set (map snd ?cs)"
    using ic by (metis length_map nth_map nth_mem)
  have "d \<in> set (keys (snd (?cs ! i)))"
    using rows_align_cells(1) [OF r] mem by (rule inner_index_keys)
  then have k: "d \<in> set (keys (?xs ! i))"
    by (simp only: c keys_zscore)
  show "d \<in> set (keys (?xs ! i))" by (rule k)
  have "vs ! i = (\<lambda>(n, z). lookup z d) (?cs ! i)"
    by (subst vs) (rule nth_map [OF ic])
  then have cell: "vs ! i = lookup (snd (zscore (Some (?xs ! i)) name)) d"
    by (simp only: c case_prod_unfold)
  show "lookup (?xs ! i) d = None" if "vs ! i = None"
    using k that [unfolded cell] by (rule zscore_missing_cell)
qed

text \<open>
  Claim C4, amended.  Every row of the frame that \<open>align_and_standardize\<close> returns is at a date
  that every supplied series has, and has one cell per column.  A cell is missing only where
  the supplied series of its column has a missing value at that date; so when no supplied
  series holds a missing value, every row has a defined value in every column.  The rows whose
  cells are all missing are dropped, and only those.
\<close>

theorem align_cells_missing_only_where_input_missing:
  "(\<forall>(d, vs) \<in> set (rows (align_and_standardize p n s o1 q)).
       length vs = length (columns (align_and_standardize p n s o1 q))
     \<and> length vs = length (present_inputs p n s o1 q)
     \<and> (\<forall>i < length vs. d \<in> set (keys (present_inputs p n s o1 q ! i))
            \<and> (vs ! i = None \<longrightarrow> lookup (present_inputs p n s o1 q ! i) d = None))
     \<and> (\<exists>v \<in> set vs. v \<noteq> None))
   \<and> ((\<forall>x \<in> set (present_inputs p n s o1 q). None \<notin> set (vals x)) \<longrightarrow>
        (\<forall>(d, vs) \<in> set (rows (align_and_standardize p n s o1 q)). None \<notin> set vs))
   \<and> rows (align_and_standardize p n s o1 q)
       = filter (\<lambda>(d, vs). \<exists>v \<in> set vs. v \<noteq> None)
           (rows (concat_inner (components p n s o1 q)))"
proof -
  let ?F = "align_and_standardize p n s o1 q" and ?xs = "present_inputs p n s o1 q"
  have conv: "(\<not> list_all (\<lambda>v. v = None) vs) = (\<exists>v \<in> set vs. v \<noteq> None)" for vs :: "val list"
    by (simp add: list_all_iff)
  have flt: "rows ?F = filter (\<lambda>(d, vs). \<exists>v \<in> set vs. v \<noteq> None)
                         (rows (concat_inner (components p n s o1 q)))"
    by (simp add: align_and_standardize_def Let_def empty_frame_def dropna_all_def
          concat_inner_def conv)
  have row: "length vs = length (columns ?F) \<and> length vs = length ?xs
     \<and> (\<forall>i < length vs. d \<in> set (keys (?xs ! i))
            \<and> (vs ! i = None \<longrightarrow> lookup (?xs ! i) d = None))
     \<and> (\<exists>v \<in> set vs. v \<noteq> None)"
    if r: "(d, vs) \<in> set (rows ?F)" for d vs
  proof -
    have "length vs = length ?xs"
    proof (cases vs)
      case Nil
      with rows_align_cells(3) [OF r] show ?thesis by simp
    next
      case (Cons v vs')
      then have "0 < length vs" by simp
      then show ?thesis by (rule align_cell_missing(1) [OF r])
    qed
    moreover have "length vs = length (columns ?F)"
      by (rule rows_align_length [OF r])
    moreover have "\<exists>v \<in> set vs. v \<noteq> None"
      by (rule rows_align_cells(3) [OF r])
    moreover have "\<forall>i < length vs. d \<in> set (keys (?xs ! i))
            \<and> (vs ! i = None \<longrightarrow> lookup (?xs ! i) d = None)"
      using align_cell_missing(2,3) [OF r] by simp
    ultimately show ?thesis by simp
  qed
  have full: "None \<notin> set vs"
    if nan: "\<forall>x \<in> set ?xs. None \<notin> set (vals x)" and r: "(d, vs) \<in> set (rows ?F)" for d vs
  proof
    assume "None \<in> set vs"
    then obtain i where i: "i < length vs" "vs ! i = None"
      by (metis in_set_conv_nth)
    have l: "lookup (?xs ! i) d = None"
      using i by (intro align_cell_missing(3) [OF r])
    have k: "d \<in> set (keys (?xs ! i))"
      using i by (intro align_cell_missing(2) [OF r])
    from k obtain v where v: "map_of (?xs ! i) d = Some v" "v \<in> set (vals (?xs ! i))"
      using map_of_key by blast
    from i align_cell_missing(1) [OF r] have "?xs ! i \<in> set ?xs" by simp
    with nan have "None \<notin> set (vals (?xs ! i))" by blast
    with v(2) have "v \<noteq> None" by metis
    with l v(1) show False by (simp add: lookup_def)
  qed
  have a: "\<forall>(d, vs) \<in> set (rows ?F).
       length vs = length (columns ?F) \<and> length vs = length ?xs
     \<and> (\<forall>i < length vs. d \<in> set (keys (?xs ! i))
            \<and> (vs ! i = None \<longrightarrow> lookup (?xs ! i) d = None))
     \<and> (\<exists>v \<in> set vs. v \<noteq> None)"
    using row by auto
  have b: "(\<forall>x \<in> set ?xs. None \<notin> set (vals x)) \<longrightarrow>
        (\<forall>(d, vs) \<in> set (rows ?F). None \<notin> set vs)"
    using full by auto
  from a b flt show ?thesis by (intro conjI)
qed

theorem align_cells_missing_only_where_input_missing_witness:
  "(2, [None, Some (- 1)]) \<in> set (rows (align_and_standardize
         (Some [(1, Some 1), (2, None), (3, Some 3)])
         (Some [(0, Some 1), (1, Some 3), (2, Some 1), (3, Some 3)]) None None None))
   \<and> length [None, Some (- 1 :: real)]
       = length (present_inputs
           (Some [(1, Some 1), (2, None), (3, Some 3)])
           (Some [(0, Some 1), (1, Some 3), (2, Some 1), (3, Some 3)]) None None None)
   \<and> lookup (present_inputs
           (Some [(1, Some 1), (2, None), (3, Some 3)])
           (Some [(0, Some 1), (1, Some 3), (2, Some 1), (3, Some 3)]) None None None ! 0) 2
       = None
   \<and> (1, [Some (- 1), Some 1]) \<in> set (rows (align_and_standardize
         (Some [(1, Some 1), (2, Some 3)]) (Some [(1, Some 4), (2, Some 2)]) None None None))
   \<and> None \<notin> set [Some (- 1 :: real), Some 1]"
proof -
  let ?p = "Some [(1, Some 1), (2, None), (3, Some 3)] :: series option"
  let ?n = "Some [(0, Some 1), (1, Some 3), (2, Some 1), (3, Some 3)] :: series option"
  let ?p1 = "Some [(1, Some 1), (2, Some 3)] :: series option"
  let ?n1 = "Some [(1, Some 4), (2, Some 2)] :: series option"
  have mem: "(2, [None, Some (- 1)]) \<in> set (rows (align_and_standardize ?p ?n None None None))"
    by (simp add: eval_defs)
  have mem1: "(1, [Some (- 1), Some 1])
               \<in> set (rows (align_and_standardize ?p1 ?n1 None None None))"
    by (simp add: eval_defs)
  have full: "\<forall>x \<in> set (present_inputs ?p1 ?n1 None None None). None \<notin> set (vals x)"
    by (simp add: present_inputs_def vals_def)
  note T = align_cells_missing_only_where_input_missing [of ?p ?n None None None]
  note T1 = align_cells_missing_only_where_input_missing [of ?p1 ?n1 None None None]
  have "case (2 :: int, [None, Some (- 1 :: real)]) of (d, vs) \<Rightarrow>
       length vs = length (columns (align_and_standardize ?p ?n None None None))
     \<and> length vs = length (present_inputs ?p ?n None None None)
     \<and> (\<forall>i < length vs. d \<in> set (keys (present_inputs ?p ?n None None None ! i))
            \<and> (vs ! i = None \<longrightarrow> lookup (present_inputs ?p ?n None None None ! i) d = None))
     \<and> (\<exists>v \<in> set vs. v \<noteq> None)"
    using T [THEN conjunct1] mem by (rule bspec)
  then have a: "length [None, Some (- 1 :: real)] = length (present_inputs ?p ?n None None None)"
    and cells: "\<forall>i < length [None, Some (- 1 :: real)].
            2 \<in> set (keys (present_inputs ?p ?n None None None ! i))
            \<and> ([None, Some (- 1 :: real)] ! i = None \<longrightarrow>
                 lookup (present_inputs ?p ?n None None None ! i) 2 = None)"
    by simp_all
  from cells have b: "lookup (present_inputs ?p ?n None None None ! 0) 2 = None"
    by (elim allE [of _ 0]) simp
  have "\<forall>(d, vs) \<in> set (rows (align_and_standardize ?p1 ?n1 None None None)). None \<notin> set vs"
    using T1 [THEN conjunct2, THEN conjunct1] full by (rule mp)
  then have "case (1 :: int, [Some (- 1 :: real), Some 1]) of (d, vs) \<Rightarrow> None \<notin> set vs"
    using mem1 by (rule bspec)
  then have c: "None \<notin> set [Some (- 1 :: real), Some 1]"
    by simp
  show ?thesis
    using mem a b mem1 c by (intro conjI)
qed

section \<open>The rolling trend slope\<close>

lemma np_sum_Some: "np_sum (map Some zs) = Some (sum_list zs)"
  by (simp add: np_sum_def foldl_vadd comp_def)

lemma centred_products:
  "sum_list (map (\<lambda>(x, y). (x - a) * (y - b)) pts)
     = sum_list (map (\<lambda>(x, y). x * y) pts) - b * sum_list (map fst pts)
       - a * sum_list (map snd pts) + real (length pts) * a * b"
  by (induction pts) (auto simp: algebra_simps)

lemma centred_squares:
  "sum_list (map (\<lambda>(x, y). (x - a) * (x - a)) pts)
     = sum_list (map (\<lambda>(x, y). x * x) pts) - 2 * a * sum_list (map fst pts)
       + real (length pts) * a * a"
  by (induction pts) (auto simp: algebra_simps)

text \<open>The slope computed from centred sums is the textbook least-squares slope.\<close>

lemma centred_slope_is_ols:
  fixes pts :: "(real \<times> real) list"
  defines "n \<equiv> real (length pts)"
  defines "xm \<equiv> sum_list (map fst pts) / n" and "ym \<equiv> sum_list (map snd pts) / n"
  defines "D \<equiv> sum_list (map (\<lambda>(x, y). (x - xm) * (x - xm)) pts)"
  defines "N \<equiv> sum_list (map (\<lambda>(x, y). (x - xm) * (y - ym)) pts)"
  assumes ne: "pts \<noteq> []"
  shows "ols_slope pts = (if D = 0 then None else Some (N / D))"
proof -
  have n: "n \<noteq> 0" using ne by (simp add: n_def)
  let ?sx = "sum_list (map fst pts)" and ?sy = "sum_list (map snd pts)"
  let ?sxy = "sum_list (map (\<lambda>(x, y). x * y) pts)" and ?sxx = "sum_list (map (\<lambda>(x, y). x * x) pts)"
  have d: "n * D = n * ?sxx - ?sx * ?sx"
    unfolding D_def centred_squares xm_def n_def [symmetric] using n
    by (simp add: field_simps)
  have nn: "n * N = n * ?sxy - ?sx * ?sy"
    unfolding N_def centred_products xm_def ym_def n_def [symmetric] using n
    by (simp add: field_simps)
  have z: "(n * ?sxx - ?sx * ?sx = 0) = (D = 0)"
    using d n by (metis mult_eq_0_iff)
  have q: "(n * ?sxy - ?sx * ?sy) / (n * ?sxx - ?sx * ?sx) = N / D"
    using n unfolding d [symmetric] nn [symmetric] by simp
  show ?thesis
    unfolding ols_slope_def Let_def n_def [symmetric] z q by simp
qed

lemma defined_Some: "defined (map Some ys) = ys"
  by (induction ys) (simp_all add: defined_def)

lemma ols_slope_Nil: "ols_slope [] = None"
  by (simp add: ols_slope_def)

lemma numerator_cells:
  "map2 vmul (map Some (map (\<lambda>a. a - xm) xs)) (map (\<lambda>b. vsub b (Some ym)) (map Some ys))
   = map Some (map (\<lambda>(x, y). (x - xm) * (y - ym)) (zip xs ys))"
proof (induction xs arbitrary: ys)
  case Nil
  show ?case by simp
next
  case (Cons x xs)
  then show ?case by (cases ys) simp_all
qed

lemma denominator_cells:
  "length xs = length ys \<Longrightarrow>
     map (\<lambda>a. vmul a a) (map Some (map (\<lambda>a. a - xm) xs))
   = map Some (map (\<lambda>(x, y). (x - xm) * (x - xm)) (zip xs ys))"
  by (induction xs ys rule: list_induct2) simp_all

lemma slope_at_window:
  assumes w: "w \<le> int i + 1"
    and y: "slice lp (int i + 1 - w) (int i + 1) = map Some ys"
    and len: "length ys = nat w"
  shows "slope_at lp w i
       = map_option (\<lambda>b. real_of_int w * b) (ols_slope (zip (map real [0..<nat w]) ys))"
proof (cases "nat w = 0")
  case True
  with len have "ys = []" by simp
  with True w y show ?thesis
    by (simp add: slope_at_def Let_def np_mean_def np_sum_def ols_slope_Nil)
next
  case False
  let ?xs = "map real [0..<nat w]"
  let ?pts = "zip ?xs ys"
  let ?n = "real (length ?pts)"
  let ?xm = "sum_list (map fst ?pts) / ?n"
  let ?ym = "sum_list (map snd ?pts) / ?n"
  let ?D = "sum_list (map (\<lambda>(x, y). (x - ?xm) * (x - ?xm)) ?pts)"
  let ?N = "sum_list (map (\<lambda>(x, y). (x - ?xm) * (y - ?ym)) ?pts)"
  have lx: "length ?xs = length ys" using len by simp
  have fst: "map fst ?pts = ?xs" using lx by (simp only: map_fst_zip)
  have snd: "map snd ?pts = ys" using lx by (simp only: map_snd_zip)
  have n: "?n = real (nat w)" using len by simp
  have ne: "?pts \<noteq> []" using False len by auto
  have xne: "?xs \<noteq> []" and yne: "ys \<noteq> []" using False len by auto
  have xmean: "np_mean ?xs = Some ?xm"
    using xne unfolding fst n by (simp add: np_mean_def)
  have ymean: "mean (map Some ys) = Some ?ym"
    using yne len unfolding snd n by (simp add: mean_def defined_Some)
  have dx: "map (\<lambda>a. vsub (Some a) (Some ?xm)) ?xs = map Some (map (\<lambda>a. a - ?xm) ?xs)"
    by (simp only: map_map comp_def vsub_simps)
  have denom: "np_sum (map (\<lambda>a. vmul a a) (map Some (map (\<lambda>a. a - ?xm) ?xs))) = Some ?D"
    unfolding denominator_cells [OF lx] by (simp only: np_sum_Some)
  have numer: "np_sum (map2 vmul (map Some (map (\<lambda>a. a - ?xm) ?xs))
                  (map (\<lambda>b. vsub b (Some ?ym)) (map Some ys))) = Some ?N"
    unfolding numerator_cells by (simp only: np_sum_Some)
  have "slope_at lp w i
      = vmul (if Some ?D \<noteq> Some 0 then vdiv (Some ?N) (Some ?D) else None)
          (Some (real_of_int w))"
    using w unfolding slope_at_def Let_def y xmean ymean dx denom numer by simp
  also have "\<dots> = map_option (\<lambda>b. real_of_int w * b) (if ?D = 0 then None else Some (?N / ?D))"
    by (simp add: mult.commute)
  also have "(if ?D = 0 then None else Some (?N / ?D)) = ols_slope ?pts"
    using centred_slope_is_ols [OF ne] by simp
  finally show ?thesis .
qed

lemma sse_expand:
  "sse a b pts
     = sum_list (map (\<lambda>(x, y). y * y) pts) - 2 * a * sum_list (map snd pts)
       - 2 * b * sum_list (map (\<lambda>(x, y). x * y) pts) + real (length pts) * a * a
       + 2 * a * b * sum_list (map fst pts) + b * b * sum_list (map (\<lambda>(x, y). x * x) pts)"
  unfolding sse_def by (induction pts) (auto simp: algebra_simps power2_eq_square)

lemma line_squares_expand:
  "sum_list (map (\<lambda>(x, y). (u + v * x)\<^sup>2) pts)
     = real (length pts) * u * u + 2 * u * v * sum_list (map fst pts)
       + v * v * sum_list (map (\<lambda>(x, y). x * x) pts)"
  by (induction pts) (auto simp: algebra_simps power2_eq_square)

lemma sse_difference:
  "sse a' b' pts - sse a b pts
     = (real (length pts) * (a' - a) * (a' - a) + 2 * (a' - a) * (b' - b) * sum_list (map fst pts)
          + (b' - b) * (b' - b) * sum_list (map (\<lambda>(x, y). x * x) pts))
       - 2 * (a' - a) * (sum_list (map snd pts) - real (length pts) * a - b * sum_list (map fst pts))
       - 2 * (b' - b) * (sum_list (map (\<lambda>(x, y). x * y) pts) - a * sum_list (map fst pts)
                          - b * sum_list (map (\<lambda>(x, y). x * x) pts))"
  unfolding sse_expand by (simp add: algebra_simps)

text \<open>The textbook slope, with the matching intercept, minimises the sum of squared residuals.\<close>

lemma ols_slope_least_squares:
  assumes b: "ols_slope pts = Some b"
  shows "sse ((sum_list (map snd pts) - b * sum_list (map fst pts)) / real (length pts)) b pts
       \<le> sse a' b' pts"
proof -
  let ?n = "real (length pts)"
  let ?sx = "sum_list (map fst pts)" and ?sy = "sum_list (map snd pts)"
  let ?sxy = "sum_list (map (\<lambda>(x, y). x * y) pts)" and ?sxx = "sum_list (map (\<lambda>(x, y). x * x) pts)"
  let ?a = "(?sy - b * ?sx) / ?n"
  from b have ne: "pts \<noteq> []" by (auto simp: ols_slope_Nil)
  then have n: "?n \<noteq> 0" by simp
  from b have den: "?n * ?sxx - ?sx * ?sx \<noteq> 0"
    and bdef: "b = (?n * ?sxy - ?sx * ?sy) / (?n * ?sxx - ?sx * ?sx)"
    by (auto simp: ols_slope_def Let_def split: if_splits)
  have e1: "?sy - ?n * ?a - b * ?sx = 0"
    using n by (simp add: field_simps)
  have na: "?n * ?a = ?sy - b * ?sx"
    using n by simp
  have bd: "b * (?n * ?sxx - ?sx * ?sx) = ?n * ?sxy - ?sx * ?sy"
    using den unfolding bdef by simp
  have "?n * (?sxy - ?a * ?sx - b * ?sxx) = ?n * ?sxy - (?n * ?a) * ?sx - b * ?n * ?sxx"
    by (simp add: algebra_simps)
  also have "\<dots> = ?n * ?sxy - ?sx * ?sy - b * (?n * ?sxx - ?sx * ?sx)"
    unfolding na by (simp add: algebra_simps)
  also have "\<dots> = 0"
    unfolding bd by simp
  finally have e2: "?sxy - ?a * ?sx - b * ?sxx = 0"
    using n by simp
  have "sse a' b' pts - sse ?a b pts
      = (?n * (a' - ?a) * (a' - ?a) + 2 * (a' - ?a) * (b' - b) * ?sx + (b' - b) * (b' - b) * ?sxx)
        - 2 * (a' - ?a) * (?sy - ?n * ?a - b * ?sx) - 2 * (b' - b) * (?sxy - ?a * ?sx - b * ?sxx)"
    by (rule sse_difference)
  also have "\<dots> = sum_list (map (\<lambda>(x, y). ((a' - ?a) + (b' - b) * x)\<^sup>2) pts)"
    unfolding e1 e2 line_squares_expand by simp
  also have "\<dots> \<ge> 0"
    by (rule sum_list_nonneg) auto
  finally show ?thesis by simp
qed

lemma slice_map: "slice (map f xs) a b = map f (slice xs a b)"
  by (simp add: slice_def take_map drop_map)

lemma length_slice_window:
  "i < length xs \<Longrightarrow> w \<le> int i + 1 \<Longrightarrow> length (slice xs (int i + 1 - w) (int i + 1)) = nat w"
  by (auto simp: slice_def)

lemma np_log_positive:
  "\<forall>c \<in> set cs. 0 < c \<Longrightarrow> map np_log (map Some cs) = map Some (map ln cs)"
  by (induction cs) (simp_all add: np_log_def)

lemma slope_at_short: "int i + 1 < w \<Longrightarrow> slope_at lp w i = None"
  by (simp add: slope_at_def)

lemma validate_close_length:
  "validate_close df = Inr close \<Longrightarrow> length close = length (rows df)"
  by (auto simp: validate_close_def column_def split: if_splits option.splits)

lemma rolling_trend_slope_result:
  assumes "validate_close df = Inr close"
  shows "rolling_trend_slope df w
       = Inr (zip (index df) (map (slope_at (map np_log close) w) [0..<length close]))"
  using assms by (simp add: rolling_trend_slope_def Let_def)

lemma np_sum_missing: "None \<in> set vs \<Longrightarrow> np_sum vs = None"
  by (simp add: np_sum_def foldl_vadd)

text \<open>A window that holds a missing or non-finite logarithm has a missing slope.\<close>

lemma slope_at_missing_log:
  assumes "None \<in> set (slice lp (int i + 1 - w) (int i + 1))"
    and "length (slice lp (int i + 1 - w) (int i + 1)) = nat w"
  shows "slope_at lp w i = None"
proof (cases "int i + 1 < w")
  case True
  then show ?thesis by (rule slope_at_short)
next
  case False
  let ?y = "slice lp (int i + 1 - w) (int i + 1)"
  let ?dx = "map (\<lambda>a. vsub (Some a) (np_mean (map real [0..<nat w]))) (map real [0..<nat w])"
  let ?dy = "map (\<lambda>b. vsub b (mean ?y)) ?y"
  from assms(1) obtain j where j: "j < length ?y" "?y ! j = None"
    by (metis in_set_conv_nth)
  have "j < length (map2 vmul ?dx ?dy)" "map2 vmul ?dx ?dy ! j = None"
    using j assms(2) by simp_all
  then have "None \<in> set (map2 vmul ?dx ?dy)"
    by (metis nth_mem)
  then have "np_sum (map2 vmul ?dx ?dy) = None"
    by (rule np_sum_missing)
  then show ?thesis
    using False by (simp add: slope_at_def Let_def)
qed

text \<open>
  Claim C5.  On a valid price table, \<open>rolling_trend_slope\<close> returns a series over the table's
  dates.  At a position with fewer than \<open>window\<close> trailing observations the value is missing.
  At a position with a full trailing window of positive closes, the value is \<open>window\<close> times the
  ordinary-least-squares slope of the logarithms of the closes against \<open>0, ..., window - 1\<close>.
  With the default window of 60, a table of fewer than 60 rows gets a missing value everywhere.
\<close>

theorem rolling_trend_slope_ols:
  assumes ok: "validate_close df = Inr close"
  shows "\<exists>r. rolling_trend_slope df w = Inr r \<and> keys r = index df
     \<and> (\<forall>i < length r. int i + 1 < w \<longrightarrow> snd (r ! i) = None)
     \<and> (\<forall>i < length r. \<forall>cs.
           w \<le> int i + 1 \<and> slice close (int i + 1 - w) (int i + 1) = map Some cs
             \<and> (\<forall>c \<in> set cs. 0 < c) \<longrightarrow>
           snd (r ! i) = map_option (\<lambda>b. real_of_int w * b)
                           (ols_slope (zip (map real [0..<nat w]) (map ln cs))))
     \<and> (length (rows df) < 60 \<longrightarrow>
          (\<exists>r0. rolling_trend_slope_default df = Inr r0 \<and> keys r0 = index df
             \<and> (\<forall>v \<in> set (vals r0). v = None)))"
proof -
  let ?lp = "map np_log close"
  let ?sl = "\<lambda>w. map (slope_at ?lp w) [0..<length close]"
  let ?r = "\<lambda>w. zip (index df) (?sl w)"
  have len: "length close = length (rows df)"
    using ok by (rule validate_close_length)
  have li: "length (index df) = length (?sl w)" for w
    using len by (simp add: index_def)
  have keys: "keys (?r w) = index df" for w
    unfolding keys_def using li [of w] by (simp only: map_fst_zip)
  have lr: "length (?r w) = length close" for w
    using len by (simp add: index_def)
  have nth: "snd (?r w ! i) = slope_at ?lp w i" if "i < length close" for i w
    using that len by (simp add: index_def)
  have short: "snd (?r w ! i) = None" if "i < length (?r w)" "int i + 1 < w" for i
    using that nth [of i w] lr [of w] by (simp add: slope_at_short)
  have full: "snd (?r w ! i) = map_option (\<lambda>b. real_of_int w * b)
                                (ols_slope (zip (map real [0..<nat w]) (map ln cs)))"
    if i: "i < length (?r w)" and w: "w \<le> int i + 1"
      and sl: "slice close (int i + 1 - w) (int i + 1) = map Some cs"
      and pos: "\<forall>c \<in> set cs. 0 < c" for i cs
  proof -
    from i have i': "i < length close" using lr [of w] by simp
    have y: "slice ?lp (int i + 1 - w) (int i + 1) = map Some (map ln cs)"
      unfolding slice_map sl by (rule np_log_positive [OF pos])
    have "length (map Some cs) = nat w"
      unfolding sl [symmetric] using i' w by (rule length_slice_window)
    then have l: "length (map ln cs) = nat w" by simp
    show ?thesis
      unfolding nth [OF i'] by (rule slope_at_window [OF w y l])
  qed
  have dflt: "\<forall>v \<in> set (vals (?r 60)). v = None" if "length (rows df) < 60"
  proof -
    have "slope_at ?lp 60 i = None" if "i < length close" for i
      using that len \<open>length (rows df) < 60\<close> by (intro slope_at_short) simp
    then have "\<forall>v \<in> set (?sl 60). v = None" by auto
    moreover have "vals (?r 60) = ?sl 60"
      unfolding vals_def using li [of 60] by (simp only: map_snd_zip)
    ultimately show ?thesis by simp
  qed
  have r: "rolling_trend_slope df w = Inr (?r w)" for w
    using ok by (rule rolling_trend_slope_result)
  have d60: "length (rows df) < 60 \<longrightarrow>
          (\<exists>r0. rolling_trend_slope_default df = Inr r0 \<and> keys r0 = index df
             \<and> (\<forall>v \<in> set (vals r0). v = None))"
    using r [of 60] keys [of 60] dflt
    unfolding rolling_trend_slope_default_def by blast
  have "rolling_trend_slope df w = Inr (?r w) \<and> keys (?r w) = index df
     \<and> (\<forall>i < length (?r w). int i + 1 < w \<longrightarrow> snd (?r w ! i) = None)
     \<and> (\<forall>i < length (?r w). \<forall>cs.
           w \<le> int i + 1 \<and> slice close (int i + 1 - w) (int i + 1) = map Some cs
             \<and> (\<forall>c \<in> set cs. 0 < c) \<longrightarrow>
           snd (?r w ! i) = map_option (\<lambda>b. real_of_int w * b)
                           (ols_slope (zip (map real [0..<nat w]) (map ln cs))))"
    using r [of w] keys [of w] short full by blast
  with d60 show ?thesis by blast
qed

theorem rolling_trend_slope_ols_witness:
  "\<exists>r. rolling_trend_slope
          \<lparr>columns = [''Close''], rows = [(1, [Some 1]), (2, [Some 2]), (3, [Some 4])],
           datetime_index = True\<rparr> 2 = Inr r
      \<and> keys r = [1, 2, 3] \<and> snd (r ! 0) = None \<and> snd (r ! 1) = Some (2 * ln 2)
      \<and> (\<exists>r0. rolling_trend_slope_default
                 \<lparr>columns = [''Close''], rows = [(1, [Some 1]), (2, [Some 2]), (3, [Some 4])],
                  datetime_index = True\<rparr> = Inr r0
            \<and> (\<forall>v \<in> set (vals r0). v = None))"
proof -
  let ?df = "\<lparr>columns = [''Close''], rows = [(1, [Some 1]), (2, [Some 2]), (3, [Some 4])],
              datetime_index = True\<rparr>"
  let ?close = "[Some 1, Some 2, Some 4] :: val list"
  have ok: "validate_close ?df = Inr ?close"
    by (simp add: validate_close_def column_def cell_def)
  have idx: "index ?df = [1, 2, 3]"
    by (simp add: index_def)
  have short: "length (rows ?df) < 60"
    by simp
  have win: "(2::int) \<le> int 1 + 1 \<and> slice ?close (int 1 + 1 - 2) (int 1 + 1) = map Some [1, 2]
           \<and> (\<forall>c \<in> set [1, 2 :: real]. 0 < c)"
    by (simp add: slice_def)
  have xs: "[0..<nat 2] = [0, Suc 0]"
    by (simp add: numeral_2_eq_2)
  have ols: "ols_slope (zip (map real [0..<nat 2]) (map ln [1, 2])) = Some (ln 2)"
    unfolding xs by (simp add: ols_slope_def Let_def)
  from rolling_trend_slope_ols [OF ok, of 2] obtain r r0 where
    r: "rolling_trend_slope ?df 2 = Inr r" and k: "keys r = index ?df"
    and s: "\<forall>i < length r. int i + 1 < 2 \<longrightarrow> snd (r ! i) = None"
    and f: "\<forall>i < length r. \<forall>cs.
           2 \<le> int i + 1 \<and> slice ?close (int i + 1 - 2) (int i + 1) = map Some cs
             \<and> (\<forall>c \<in> set cs. 0 < c) \<longrightarrow>
           snd (r ! i) = map_option (\<lambda>b. real_of_int 2 * b)
                           (ols_slope (zip (map real [0..<nat 2]) (map ln cs)))"
    and d: "rolling_trend_slope_default ?df = Inr r0" "\<forall>v \<in> set (vals r0). v = None"
    using short by blast
  have "length (keys r) = 3"
    unfolding k idx by simp
  then have l: "length r = 3"
    by (simp add: keys_def)
  from s l have s0: "snd (r ! 0) = None"
    by simp
  from f l win have "snd (r ! 1) = map_option (\<lambda>b. real_of_int 2 * b)
                           (ols_slope (zip (map real [0..<nat 2]) (map ln [1, 2])))"
    by (metis One_nat_def Suc_1 lessI less_SucI numeral_3_eq_3 of_nat_1)
  then have s1: "snd (r ! 1) = Some (2 * ln 2)"
    unfolding ols by simp
  from r k s0 s1 d show ?thesis
    unfolding idx by blast
qed

section \<open>Combining the sentiment channels\<close>

lemma sum_list_defined:
  "sum_list (defined vs) = sum_list (map (\<lambda>v. case v of None \<Rightarrow> 0 | Some x \<Rightarrow> x) vs)"
  by (induction vs) (simp_all add: defined_def split: option.splits)

lemma length_defined:
  "length (defined vs) = sum_list (map (\<lambda>v. case v of None \<Rightarrow> 0 | Some x \<Rightarrow> 1) vs)"
  by (induction vs) (simp_all add: defined_def split: option.splits)

lemma lookup_member:
  "distinct (keys s) \<Longrightarrow> (d, v) \<in> set s \<Longrightarrow> lookup s d = v"
  by (simp add: lookup_def keys_def)

lemma lookup_absent: "d \<notin> set (keys s) \<Longrightarrow> lookup s d = None"
  using map_of_eq_None_iff [of s d] by (simp add: lookup_def keys_def)

text \<open>A sum over the cells of a series, read through any distinct index that covers its dates.\<close>

lemma sum_over_reindex:
  fixes h :: "val \<Rightarrow> 'a::comm_monoid_add"
  assumes ds: "distinct (keys s)" and di: "distinct idx" and sub: "set (keys s) \<subseteq> set idx"
    and h0: "h None = 0"
  shows "sum_list (map h (vals (reindex s idx))) = sum_list (map h (vals s))"
proof -
  have "sum_list (map h (vals (reindex s idx))) = sum_list (map (\<lambda>d. h (lookup s d)) idx)"
    by (simp add: vals_def reindex_def comp_def)
  also have "\<dots> = sum (\<lambda>d. h (lookup s d)) (set idx)"
    using di by (rule sum_list_distinct_conv_sum_set)
  also have "\<dots> = sum (\<lambda>d. h (lookup s d)) (set (keys s))"
    by (rule sum.mono_neutral_right) (use sub h0 in \<open>auto simp: lookup_absent\<close>)
  also have "\<dots> = sum_list (map (\<lambda>d. h (lookup s d)) (keys s))"
    using ds by (rule sum_list_distinct_conv_sum_set [symmetric])
  also have "\<dots> = sum_list (map h (vals s))"
  proof -
    have "map (\<lambda>d. h (lookup s d)) (keys s) = map h (vals s)"
      unfolding keys_def vals_def map_map
      by (rule map_cong [OF refl]) (use ds in \<open>auto simp: lookup_member\<close>)
    then show ?thesis by simp
  qed
  finally show ?thesis .
qed

lemma mean_reindex:
  assumes "distinct (keys s)" and "distinct idx" and "set (keys s) \<subseteq> set idx"
  shows "mean (vals (reindex s idx)) = mean (vals s)"
proof -
  have s: "sum_list (defined (vals (reindex s idx))) = sum_list (defined (vals s))"
    unfolding sum_list_defined by (rule sum_over_reindex [OF assms]) simp
  have l: "length (defined (vals (reindex s idx))) = length (defined (vals s))"
    unfolding length_defined by (rule sum_over_reindex [OF assms]) simp
  have e: "defined (vals (reindex s idx)) = [] \<longleftrightarrow> defined (vals s) = []"
    using l by (metis length_0_conv)
  show ?thesis
    unfolding mean_def Let_def using s l e by simp
qed

lemma distinct_outer_index:
  "distinct (keys a) \<Longrightarrow> distinct (outer_index a b)"
  by (auto simp: outer_index_def)

lemma set_outer_index: "set (outer_index a b) = set (keys a) \<union> set (keys b)"
  by (auto simp: outer_index_def)

lemma fillna_reindex:
  "fillna (reindex s idx) (mean (vals s)) = map (\<lambda>d. (d, own_mean_fill s d)) idx"
  by (simp add: fillna_def reindex_def own_mean_fill_def)

text \<open>
  Claim C6.  For two series with distinct dates, \<open>combine_sentiment_scores\<close> returns, over the
  union of their dates, \<open>weight_news\<close> times the news value plus \<open>1 - weight_news\<close> times the
  social value, where a value missing from a series is replaced by the mean of that series' own
  defined values; the default \<open>weight_news\<close> is 0.6.
\<close>

theorem combine_sentiment_outer_join_own_mean:
  assumes "distinct (keys news)" and "distinct (keys social)"
  shows "combine_sentiment_scores news social w
       = map (\<lambda>d. (d, vadd (vmul (Some w) (own_mean_fill news d))
                           (vmul (Some (1 - w)) (own_mean_fill social d))))
           (outer_index news social)
     \<and> set (keys (combine_sentiment_scores news social w)) = set (keys news) \<union> set (keys social)
     \<and> combine_sentiment_scores_default news social = combine_sentiment_scores news social 0.6"
proof -
  let ?idx = "outer_index news social"
  have di: "distinct ?idx"
    using assms(1) by (rule distinct_outer_index)
  have mn: "mean (vals (reindex news ?idx)) = mean (vals news)"
    using assms(1) di by (rule mean_reindex) (simp add: set_outer_index)
  have ms: "mean (vals (reindex social ?idx)) = mean (vals social)"
    using assms(2) di by (rule mean_reindex) (simp add: set_outer_index)
  have eq: "combine_sentiment_scores news social w
       = map (\<lambda>d. (d, vadd (vmul (Some w) (own_mean_fill news d))
                           (vmul (Some (1 - w)) (own_mean_fill social d))))
           ?idx"
    unfolding combine_sentiment_scores_def Let_def mn ms fillna_reindex
    by (simp add: zip_map_map zip_same_conv_map)
  have "keys (combine_sentiment_scores news social w) = ?idx"
    unfolding eq by (simp add: keys_def comp_def)
  with eq show ?thesis
    by (simp add: set_outer_index combine_sentiment_scores_default_def)
qed

theorem combine_sentiment_outer_join_own_mean_witness:
  "combine_sentiment_scores_default
      [(1, Some (1 / 5)), (3, Some (3 / 5))] [(2, Some (1 / 10)), (3, Some (3 / 10))]
   = [(1, Some (1 / 5)), (2, Some (7 / 25)), (3, Some (12 / 25))]"
proof -
  let ?n = "[(1, Some (1 / 5)), (3, Some (3 / 5))] :: series"
  let ?s = "[(2, Some (1 / 10)), (3, Some (3 / 10))] :: series"
  have h1: "distinct (keys ?n)" and h2: "distinct (keys ?s)"
    by (simp_all add: keys_def)
  have idx: "outer_index ?n ?s = [1, 2, 3]"
    by (simp add: outer_index_def keys_def)
  show ?thesis
    using combine_sentiment_outer_join_own_mean [OF h1 h2, of "0.6"]
    unfolding idx
    by (simp add: own_mean_fill_def lookup_def mean_def defined_def vals_def)
qed

section \<open>The prediction-market bias\<close>

lemma lookup_constant:
  "d \<in> set ds \<Longrightarrow> lookup (map (\<lambda>d. (d, Some c)) ds) d = Some c"
  by (induction ds) (auto simp: lookup_def)

lemma columns_frame_sub: "columns (frame_sub f c) = columns f"
  by (simp add: frame_sub_def)

lemma rows_frame_sub:
  "rows (frame_sub f c) = map (\<lambda>(d, vs). (d, map (\<lambda>v. vsub v (Some c)) vs)) (rows f)"
  by (simp add: frame_sub_def)

lemma zip_map_same: "zip xs (map g xs) = map (\<lambda>x. (x, g x)) xs"
  by (induction xs) simp_all

lemma polymarket_bias_closed_form:
  assumes dist: "distinct (map fst sd)"
    and ne: "sd \<noteq> []"
    and idx: "inner_index (map snd sd) \<noteq> []"
    and ws: "sum_list (market_weights sd w) \<noteq> 0"
  shows "compute_polymarket_bias sd w
       = Inr (map (\<lambda>d. (d, weighted_cells (market_weights sd w)
                            (map (\<lambda>(k, s). vsub (lookup s d) (Some 0.5)) sd)))
                (inner_index (map snd sd)))"
proof -
  let ?df = "concat_inner sd"
  let ?c = "frame_sub ?df 0.5"
  let ?ws = "market_weights sd w"
  have cols: "columns ?c = map fst sd"
    by (simp add: columns_frame_sub columns_concat_inner)
  have rws: "rows ?c = map (\<lambda>d. (d, map (\<lambda>(k, s). vsub (lookup s d) (Some 0.5)) sd))
                         (inner_index (map snd sd))"
    by (simp add: rows_frame_sub rows_concat_inner comp_def case_prod_unfold)
  have d: "distinct (columns ?c)"
    unfolding cols by (rule dist)
  have rl: "\<forall>(d, vs) \<in> set (rows ?c). length vs = length (columns ?c)"
    unfolding rws cols by auto
  have len: "length ?ws = length (columns ?c)"
    unfolding cols by (simp add: market_weights_def)
  have aw: "map (\<lambda>col. (col, dict_get (case w of None \<Rightarrow> map (\<lambda>mid. (mid, 1)) (columns ?df)
                                        | Some w \<Rightarrow> w) col 0)) (columns ?df)
          = zip (columns ?c) ?ws"
    unfolding cols columns_concat_inner market_weights_def by (simp only: zip_map_same)
  have nonempty: "\<not> is_empty ?df"
    using ne idx by (simp add: is_empty_def concat_inner_def Let_def)
  have wsum: "sum_list (map snd (zip (columns ?c) ?ws)) \<noteq> 0"
    using ws len by simp
  have "compute_polymarket_bias sd w
      = (case weighted_sum ?c (zip (columns ?c) ?ws) (replicate (length (rows ?c)) (Some 0)) of
           Inl e \<Rightarrow> Inl e
         | Inr ws \<Rightarrow> Inr (zip (index ?c) ws))"
    using ne nonempty wsum unfolding compute_polymarket_bias_def Let_def aw by simp
  also have "\<dots> = Inr (zip (index ?c) (map (\<lambda>(d, vs). weighted_cells ?ws vs) (rows ?c)))"
    using weighted_sum_frame [OF d rl len] by simp
  also have "zip (index ?c) (map (\<lambda>(d, vs). weighted_cells ?ws vs) (rows ?c))
           = map (\<lambda>d. (d, weighted_cells ?ws (map (\<lambda>(k, s). vsub (lookup s d) (Some 0.5)) sd)))
               (inner_index (map snd sd))"
    unfolding index_def rws by (simp add: comp_def zip_map_same)
  finally show ?thesis .
qed

lemma polymarket_bias_constant_market:
  "compute_polymarket_bias [(mid, map (\<lambda>d. (d, Some 0.7)) ds)] None
   = Inr (map (\<lambda>d. (d, Some 0.2)) ds)"
proof (cases "ds = []")
  case True
  then show ?thesis
    by (simp add: compute_polymarket_bias_def concat_inner_def is_empty_def Let_def keys_def)
next
  case False
  let ?s = "map (\<lambda>d. (d, Some 0.7)) ds :: series"
  have idx: "inner_index (map snd [(mid, ?s)]) = ds"
    by (simp add: keys_def comp_def)
  have mw: "market_weights [(mid, ?s)] None = [1]"
    by (simp add: market_weights_def dict_get_def)
  have "compute_polymarket_bias [(mid, ?s)] None
      = Inr (map (\<lambda>d. (d, weighted_cells [1] [vsub (lookup ?s d) (Some 0.5)])) ds)"
    using polymarket_bias_closed_form [of "[(mid, ?s)]" None] False
    unfolding idx mw by simp
  also have "map (\<lambda>d. (d, weighted_cells [1] [vsub (lookup ?s d) (Some 0.5)])) ds
           = map (\<lambda>d. (d, Some 0.2)) ds"
    by (rule map_cong [OF refl]) (simp add: lookup_constant weighted_cells_def)
  finally show ?thesis .
qed

text \<open>
  Claim C7.  \<open>compute_polymarket_bias\<close> subtracts 0.5 from every cell of the joined series and
  returns their weighted sum, date by date: nothing is standardised.  One market that is
  constantly 0.7, with no weights given, yields the constant 0.2 over the same dates.
\<close>

theorem polymarket_bias_recentres:
  "(distinct (map fst sd) \<and> sd \<noteq> [] \<and> inner_index (map snd sd) \<noteq> []
      \<and> sum_list (market_weights sd w) \<noteq> 0 \<longrightarrow>
      compute_polymarket_bias sd w
        = Inr (map (\<lambda>d. (d, weighted_cells (market_weights sd w)
                             (map (\<lambda>(k, s). vsub (lookup s d) (Some 0.5)) sd)))
                 (inner_index (map snd sd))))
   \<and> compute_polymarket_bias [(mid, map (\<lambda>d. (d, Some 0.7)) ds)] None
       = Inr (map (\<lambda>d. (d, Some 0.2)) ds)"
  using polymarket_bias_closed_form [of sd w] polymarket_bias_constant_market [of mid ds]
  by blast

theorem polymarket_bias_recentres_witness:
  "compute_polymarket_bias
      [(''m1'', [(1, Some 0.7), (2, Some 0.9)]), (''m2'', [(1, Some 0.5), (2, Some 0.25)])]
      (Some [(''m1'', 2), (''m2'', 4)])
   = Inr [(1, Some 0.4), (2, Some (- 0.2))]"
proof -
  let ?sd = "[(''m1'', [(1, Some 0.7), (2, Some 0.9)]),
              (''m2'', [(1, Some 0.5), (2, Some 0.25)])] :: (string \<times> series) list"
  let ?w = "Some [(''m1'', 2), (''m2'', 4)] :: weights option"
  have idx: "inner_index (map snd ?sd) = [1, 2]"
    by (simp add: keys_def)
  have mw: "market_weights ?sd ?w = [2, 4]"
    by (simp add: market_weights_def dict_get_def)
  have h: "distinct (map fst ?sd) \<and> ?sd \<noteq> [] \<and> inner_index (map snd ?sd) \<noteq> []
         \<and> sum_list (market_weights ?sd ?w) \<noteq> 0"
    unfolding idx mw by simp
  show ?thesis
    using polymarket_bias_recentres [of ?sd ?w] h
    unfolding idx mw by (simp add: weighted_cells_def lookup_def)
qed

section \<open>Divergence on empty inputs\<close>

text \<open>
  Claim C8.  \<open>compute_polymarket_divergence\<close> returns the empty series, and no error, when either
  input is empty, whatever the other holds, and when the two inputs have no date in common.
\<close>

theorem divergence_empty_inputs:
  "(p = [] \<or> m = [] \<longrightarrow> compute_polymarket_divergence p m w = Inr [])
   \<and> (inner_index [p, m] = [] \<longrightarrow> compute_polymarket_divergence p m w = Inr [])"
  by (simp add: compute_polymarket_divergence_def concat_inner_def is_empty_def Let_def)

theorem divergence_empty_inputs_witness:
  "compute_polymarket_divergence [(1, Some 2), (2, Some 5)] [] 20 = Inr []
   \<and> compute_polymarket_divergence [] [(1, Some (1 / 5))] 20 = Inr []
   \<and> compute_polymarket_divergence [(1, Some 2), (2, Some 5)] [(3, Some (1 / 5))] 20 = Inr []"
proof -
  have h: "inner_index [[(1, Some 2), (2, Some 5)], [(3, Some (1 / 5))]] = []"
    by (simp add: keys_def)
  show ?thesis
    using divergence_empty_inputs [of "[(1, Some 2), (2, Some 5)]" "[]" 20]
      divergence_empty_inputs [of "[]" "[(1, Some (1 / 5))]" 20]
      divergence_empty_inputs [of "[(1, Some 2), (2, Some 5)]" "[(3, Some (1 / 5))]" 20] h
    by simp
qed

section \<open>Validation of the sentiment table\<close>

lemma col_pos_Some: "c \<in> set cs \<Longrightarrow> \<exists>i. col_pos cs c = Some i"
  by (induction cs) auto

text \<open>
  Claim C9.  Daily aggregation returns an empty table for an empty input table; for an input
  with rows and columns it raises the error that carries the set of missing required columns
  when one of \<open>date\<close>, \<open>channel\<close>, \<open>sentiment\<close> is absent, and returns a table otherwise.
\<close>

theorem aggregate_daily_sentiment_validation:
  "(tcolumns df = [] \<or> trows df = [] \<longrightarrow>
      aggregate_daily_sentiment df
        = Inr \<lparr>columns = [''date'', ''channel'', ''sentiment''], rows = []\<rparr>)
   \<and> (tcolumns df \<noteq> [] \<and> trows df \<noteq> []
        \<and> \<not> {''date'', ''channel'', ''sentiment''} \<subseteq> set (tcolumns df) \<longrightarrow>
      aggregate_daily_sentiment df
        = Inl (MissingColumns ({''date'', ''channel'', ''sentiment''} - set (tcolumns df)))
      \<and> {''date'', ''channel'', ''sentiment''} - set (tcolumns df) \<noteq> {})
   \<and> (tcolumns df \<noteq> [] \<and> trows df \<noteq> []
        \<and> {''date'', ''channel'', ''sentiment''} \<subseteq> set (tcolumns df) \<longrightarrow>
      (\<exists>f. aggregate_daily_sentiment df = Inr f))"
proof -
  have a: "aggregate_daily_sentiment df
        = Inr \<lparr>columns = [''date'', ''channel'', ''sentiment''], rows = []\<rparr>"
    if "tcolumns df = [] \<or> trows df = []"
    using that by (auto simp: aggregate_daily_sentiment_def)
  have b: "aggregate_daily_sentiment df
        = Inl (MissingColumns ({''date'', ''channel'', ''sentiment''} - set (tcolumns df)))
      \<and> {''date'', ''channel'', ''sentiment''} - set (tcolumns df) \<noteq> {}"
    if "tcolumns df \<noteq> []" "trows df \<noteq> []"
      "\<not> {''date'', ''channel'', ''sentiment''} \<subseteq> set (tcolumns df)"
  proof -
    from that(3) have ne: "{''date'', ''channel'', ''sentiment''} - set (tcolumns df) \<noteq> {}"
      by blast
    with that(1,2) show ?thesis
      by (simp add: aggregate_daily_sentiment_def Let_def)
  qed
  have c: "\<exists>f. aggregate_daily_sentiment df = Inr f"
    if "tcolumns df \<noteq> []" "trows df \<noteq> []"
      "{''date'', ''channel'', ''sentiment''} \<subseteq> set (tcolumns df)"
  proof -
    from that(3) have e: "{''date'', ''channel'', ''sentiment''} - set (tcolumns df) = {}"
      by blast
    from that(3) obtain di ci si where
      "col_pos (tcolumns df) ''date'' = Some di"
      "col_pos (tcolumns df) ''channel'' = Some ci"
      "col_pos (tcolumns df) ''sentiment'' = Some si"
      using col_pos_Some [of _ "tcolumns df"] by (meson insert_subset)
    with that(1,2) e show ?thesis
      by (simp add: aggregate_daily_sentiment_def Let_def)
  qed
  from a b c show ?thesis by blast
qed

theorem aggregate_daily_sentiment_validation_witness:
  "aggregate_daily_sentiment \<lparr>tcolumns = [''date'', ''channel'', ''sentiment''], trows = []\<rparr>
     = Inr \<lparr>columns = [''date'', ''channel'', ''sentiment''], rows = []\<rparr>
   \<and> aggregate_daily_sentiment
        \<lparr>tcolumns = [''date'', ''text''], trows = [[Date 1, Str ''up'']]\<rparr>
     = Inl (MissingColumns {''channel'', ''sentiment''})
   \<and> (\<exists>f. aggregate_daily_sentiment
        \<lparr>tcolumns = [''date'', ''channel'', ''sentiment''],
         trows = [[Date 1, Str ''news'', Num 1]]\<rparr> = Inr f)"
proof -
  have m: "{''date'', ''channel'', ''sentiment''} - set [''date'', ''text'']
         = {''channel'', ''sentiment''}"
    by auto
  show ?thesis
    using aggregate_daily_sentiment_validation
        [of "\<lparr>tcolumns = [''date'', ''channel'', ''sentiment''], trows = []\<rparr>"]
      aggregate_daily_sentiment_validation
        [of "\<lparr>tcolumns = [''date'', ''text''], trows = [[Date 1, Str ''up'']]\<rparr>"]
      aggregate_daily_sentiment_validation
        [of "\<lparr>tcolumns = [''date'', ''channel'', ''sentiment''],
              trows = [[Date 1, Str ''news'', Num 1]]\<rparr>"]
    by (simp add: m)
qed

section \<open>Degenerate standardisation\<close>

text \<open>In exact arithmetic a series whose defined values are all equal has standard deviation 0,
  or none.\<close>

lemma std0_all_equal:
  assumes "\<forall>x \<in> set (defined vs). x = c"
  shows "std0 vs = Some 0 \<or> std0 vs = None"
proof (cases "defined vs = []")
  case True
  then show ?thesis by (simp add: std0_def)
next
  case False
  from assms have r: "defined vs = replicate (length (defined vs)) c"
    by (simp add: replicate_length_same)
  have n: "0 < length (defined vs)" using False by simp
  have m: "sum_list (defined vs) / real (length (defined vs)) = c"
    using n by (subst r) (simp add: sum_list_replicate)
  have "sum_list (map (\<lambda>x. (x - c)\<^sup>2) (defined vs)) = 0"
    by (subst r) (simp add: sum_list_replicate)
  with False m show ?thesis
    by (simp add: std0_def Let_def)
qed

text \<open>In double precision the same series need not have standard deviation 0.  The double
  written \<open>0.1\<close> is \<open>rnd (1 / 10)\<close>; the sum of three of them rounds up, and so does their mean.\<close>

lemma binexp_numeral:
  "binexp (numeral n) x =
     (if 2 \<le> x then binexp (pred_numeral n) (x / 2) + 1
      else if x < 1 then binexp (pred_numeral n) (x * 2) - 1 else 0)"
  by (simp add: numeral_eq_Suc)

lemmas rnd_eval = rnd_def binexp_numeral round_even_def pow2_def Let_def

lemma rnd_tenth: "rnd (1 / 10) = 3602879701896397 / 36028797018963968"
  by (simp add: rnd_eval)

lemmas float_eval = float_sum_def fadd_def fsub_def fmul_def fdiv_def fsqrt_def rnd_eval

lemma sqrt_var: "sqrt (1 / 5192296858534827628530496329220096) = 1 / 72057594037927936"
  by (rule real_sqrt_unique) (simp_all add: power2_eq_square)

lemma std_tenths:
  "float_std0 [Some (rnd (1 / 10)), Some (rnd (1 / 10)), Some (rnd (1 / 10))]
     = Some (1 / 72057594037927936)"
proof -
  let ?a = "3602879701896397 / 36028797018963968 :: real"
  let ?m = "7205759403792795 / 72057594037927936 :: real"
  let ?q = "1 / 5192296858534827628530496329220096 :: real"
  have d: "defined [Some ?a, Some ?a, Some ?a] = [?a, ?a, ?a]"
    by (simp add: defined_def)
  have avg: "fdiv (float_sum [?a, ?a, ?a]) (real (length [?a, ?a, ?a])) = ?m"
    by (simp add: float_eval)
  have dev: "fmul (fsub ?m ?a) (fsub ?m ?a) = ?q"
    by (simp add: float_eval)
  have sqr: "map (\<lambda>x. fmul (fsub ?m x) (fsub ?m x)) [?a, ?a, ?a] = [?q, ?q, ?q]"
    by (simp only: list.map dev)
  have var: "fdiv (float_sum [?q, ?q, ?q]) (real (length [?a, ?a, ?a])) = ?q"
    by (simp add: float_eval)
  have root: "fsqrt ?q = 1 / 72057594037927936"
    unfolding fsqrt_def sqrt_var by (simp add: rnd_eval)
  show ?thesis
    unfolding rnd_tenth float_std0_def Let_def d avg sqr var root by simp
qed

lemma mean_tenths2:
  "float_mean [Some (rnd (1 / 10)), Some (rnd (1 / 10)), Some (rnd (1 / 10))]
     = Some (7205759403792795 / 72057594037927936)"
  unfolding rnd_tenth
  by (simp add: float_mean_def defined_def float_eval)

text \<open>Where the computed standard deviation is exactly 0, or undefined, both functions do return
  zeros over the same dates.\<close>

lemma float_zscore_guard:
  assumes "float_std0 (vals s) = Some 0 \<or> float_std0 (vals s) = None"
  shows "snd (float_zscore (Some s) name) = map (\<lambda>(d, v). (d, Some 0)) s"
    and "float_price_zscore s = map (\<lambda>(d, v). (d, Some 0)) s"
  using assms by (auto simp: float_zscore_def float_price_zscore_def Let_def)

text \<open>
  Claim C1.  The claim asks for zeros on every series of standard deviation 0, an all-equal
  series among them.  On the series that is 0.1 on three dates the code computes the mean
  0.10000000000000002 and the standard deviation \<open>1 / 2 ^ 56\<close>, about 1.39e-17, so the test
  \<open>std == 0\<close> fails and both \<open>_zscore\<close> functions return -1 on every date instead of 0.
\<close>

theorem zscore_constant_tenths:
  "float_std0 [Some (rnd (1 / 10)), Some (rnd (1 / 10)), Some (rnd (1 / 10))]
     = Some (1 / 2 ^ 56)
   \<and> float_zscore (Some [(1, Some (rnd (1 / 10))), (2, Some (rnd (1 / 10))), (3, Some (rnd (1 / 10)))])
      ''price_bias_z''
     = (''price_bias_z'', [(1, Some (- 1)), (2, Some (- 1)), (3, Some (- 1))])
   \<and> float_price_zscore
       [(1, Some (rnd (1 / 10))), (2, Some (rnd (1 / 10))), (3, Some (rnd (1 / 10)))]
     = [(1, Some (- 1)), (2, Some (- 1)), (3, Some (- 1))]"
proof -
  have st: "float_standardize (Some (rnd (1 / 10))) (Some (7205759403792795 / 72057594037927936))
              (Some (1 / 72057594037927936)) = Some (- 1)"
    unfolding rnd_tenth by (simp add: float_standardize_def float_eval)
  have sd: "float_std0 [Some (rnd (1 / 10)), Some (rnd (1 / 10)), Some (rnd (1 / 10))]
          = Some (1 / 2 ^ 56)"
    by (simp add: std_tenths)
  have z: "float_zscore
        (Some [(1, Some (rnd (1 / 10))), (2, Some (rnd (1 / 10))), (3, Some (rnd (1 / 10)))])
        ''price_bias_z''
      = (''price_bias_z'', [(1, Some (- 1)), (2, Some (- 1)), (3, Some (- 1))])"
    by (simp add: float_zscore_def vals_def std_tenths mean_tenths2 st)
  have pz: "float_price_zscore
        [(1, Some (rnd (1 / 10))), (2, Some (rnd (1 / 10))), (3, Some (rnd (1 / 10)))]
      = [(1, Some (- 1)), (2, Some (- 1)), (3, Some (- 1))]"
    by (simp add: float_price_zscore_def vals_def std_tenths mean_tenths2 st)
  from sd z pz show ?thesis by (intro conjI)
qed

end
